theory Spec2Isabelle
  imports Main
begin

unbundle bit_operations_syntax

section \<open>JavaScript strings and the platform functions the module calls\<close>

text \<open>
  The module under study is \<^verbatim>\<open>webrtc-direct\<close>: \<^verbatim>\<open>compressSignaling\<close>,
  \<^verbatim>\<open>decompressSignaling\<close> and the connection manager returned by
  \<^verbatim>\<open>createDirectConnection\<close>.

  A JavaScript string is a sequence of UTF-16 code units; a code unit is modelled as a
  natural number and a string as a list of them. \<open>lit\<close> turns an Isabelle string
  literal into such a list.
\<close>

type_synonym jsstring = "nat list"

definition lit :: "string \<Rightarrow> jsstring" where
  "lit s = map of_char s"

text \<open>
  What the module gets from its host and cannot compute by itself is collected in one
  record: the clock read by \<^verbatim>\<open>Date.now()\<close>; the text and the truthiness of a Number
  parsed from a JSON numeric literal; the text of a function inherited from
  \<^verbatim>\<open>Object.prototype\<close>; and the integer a Number beyond the exact range of a double
  stands for once it is rounded (below \<open>2 ^ 53\<close> a Number is the integer itself).
\<close>

record platform =
  now :: nat
  number_text :: "jsstring \<Rightarrow> jsstring"
  number_falsy :: "jsstring \<Rightarrow> bool"
  inherited_text :: "jsstring \<Rightarrow> jsstring"
  rounded :: "int \<Rightarrow> int"

datatype js_error =
    Error jsstring
  | TypeError
  | SyntaxError
  | InvalidCharacterError
  | EngineError

subsection \<open>Character classes\<close>

definition isLineTerminator :: "nat \<Rightarrow> bool" where
  "isLineTerminator c = (c = 10 \<or> c = 13 \<or> c = 8232 \<or> c = 8233)"

definition isWhiteSpace :: "nat \<Rightarrow> bool" where
  "isWhiteSpace c =
     (c = 9 \<or> c = 11 \<or> c = 12 \<or> c = 32 \<or> c = 160 \<or> c = 5760 \<or> (8192 \<le> c \<and> c \<le> 8202)
      \<or> c = 8239 \<or> c = 8287 \<or> c = 12288 \<or> c = 65279 \<or> isLineTerminator c)"

definition isDigit :: "nat \<Rightarrow> bool" where
  "isDigit c = (48 \<le> c \<and> c \<le> 57)"

text \<open>\<^verbatim>\<open>\w\<close> of a regular expression without flags: \<^verbatim>\<open>[A-Za-z0-9_]\<close>.\<close>

definition isWordChar :: "nat \<Rightarrow> bool" where
  "isWordChar c = (isDigit c \<or> (65 \<le> c \<and> c \<le> 90) \<or> (97 \<le> c \<and> c \<le> 122) \<or> c = 95)"

subsection \<open>String methods\<close>

text \<open>\<^verbatim>\<open>String.prototype.trim\<close>: white space and line terminators go from both ends.\<close>

definition trim :: "jsstring \<Rightarrow> jsstring" where
  "trim s = rev (dropWhile isWhiteSpace (rev (dropWhile isWhiteSpace s)))"

text \<open>\<^verbatim>\<open>s.split(sep)\<close> for a separator of one code unit; the empty string gives \<^verbatim>\<open>[""]\<close>.\<close>

fun split :: "nat \<Rightarrow> jsstring \<Rightarrow> jsstring list" where
  "split sep [] = [[]]"
| "split sep (c # cs) =
     (if c = sep then [] # split sep cs
      else (case split sep cs of [] \<Rightarrow> [[c]] | x # xs \<Rightarrow> (c # x) # xs))"

text \<open>\<^verbatim>\<open>parts.join(sep)\<close> on an array of strings.\<close>

fun join :: "jsstring \<Rightarrow> jsstring list \<Rightarrow> jsstring" where
  "join sep [] = []"
| "join sep [x] = x"
| "join sep (x # y # ys) = x @ sep @ join sep (y # ys)"

subsection \<open>Numbers and their texts\<close>

text \<open>
  A Number that is an integer below \<open>2 ^ 53\<close> in magnitude is that integer; a larger one
  is what the host rounds it to.
\<close>

definition toNumber :: "platform \<Rightarrow> int \<Rightarrow> int" where
  "toNumber pf v = (if \<bar>v\<bar> \<le> 2 ^ 53 then v else rounded pf v)"

text \<open>The value of a digit in a radix up to 36, as \<^verbatim>\<open>parseInt\<close> reads it.\<close>

definition digitValue :: "nat \<Rightarrow> nat option" where
  "digitValue c =
     (if 48 \<le> c \<and> c \<le> 57 then Some (c - 48)
      else if 97 \<le> c \<and> c \<le> 122 then Some (c - 87)
      else if 65 \<le> c \<and> c \<le> 90 then Some (c - 55)
      else None)"

definition isRadixDigit :: "nat \<Rightarrow> nat \<Rightarrow> bool" where
  "isRadixDigit r c = (case digitValue c of None \<Rightarrow> False | Some d \<Rightarrow> d < r)"

definition digitsValue :: "nat \<Rightarrow> jsstring \<Rightarrow> nat" where
  "digitsValue r ds =
     foldl (\<lambda>acc c. acc * r + (case digitValue c of None \<Rightarrow> 0 | Some d \<Rightarrow> d)) 0 ds"

text \<open>
  \<^verbatim>\<open>parseInt(s, radix)\<close>; radix \<open>0\<close> stands for a call without one. \<open>None\<close> is NaN.
\<close>

definition parseInt :: "platform \<Rightarrow> jsstring \<Rightarrow> nat \<Rightarrow> int option" where
  "parseInt pf s radix =
     (let s1 = dropWhile isWhiteSpace s;
          neg = (s1 \<noteq> [] \<and> hd s1 = 45);
          s2 = (if s1 \<noteq> [] \<and> (hd s1 = 45 \<or> hd s1 = 43) then tl s1 else s1);
          hex = ((radix = 0 \<or> radix = 16) \<and> (take 2 s2 = lit ''0x'' \<or> take 2 s2 = lit ''0X''));
          r = (if hex then 16 else if radix = 0 then 10 else radix);
          s3 = (if hex then drop 2 s2 else s2);
          ds = takeWhile (isRadixDigit r) s3
      in if radix \<noteq> 0 \<and> (radix < 2 \<or> 36 < radix) then None
         else if ds = [] then None
         else Some (toNumber pf ((if neg then - 1 else 1) * int (digitsValue r ds))))"

text \<open>
  \<^verbatim>\<open>Number(part)\<close> and \<^verbatim>\<open>parseInt(port)\<close> are only ever applied to what \<^verbatim>\<open>\d+\<close>
  matched: a non-empty run of decimal digits, whose Number is its decimal value.
\<close>

definition NumberOfDigits :: "platform \<Rightarrow> jsstring \<Rightarrow> int" where
  "NumberOfDigits pf ds = toNumber pf (int (digitsValue 10 ds))"

text \<open>
  \<^verbatim>\<open>String.fromCharCode(n)\<close>: the code unit is the Number modulo \<open>2 ^ 16\<close>; NaN gives
  code unit \<open>0\<close>.
\<close>

definition fromCharCode :: "int option \<Rightarrow> nat" where
  "fromCharCode n = (case n of None \<Rightarrow> 0 | Some v \<Rightarrow> nat (v mod 65536))"

text \<open>The decimal text of an integer Number, as string concatenation and \<^verbatim>\<open>join\<close> write it.\<close>

fun natText :: "nat \<Rightarrow> jsstring" where
  "natText n = (if n < 10 then [48 + n] else natText (n div 10) @ [48 + n mod 10])"

definition intText :: "int \<Rightarrow> jsstring" where
  "intText i = (if i < 0 then 45 # natText (nat (- i)) else natText (nat i))"

text \<open>\<^verbatim>\<open>b.toString(16).padStart(2, '0').toUpperCase()\<close> for a code unit \<open>b\<close>.\<close>

definition hexDigitLower :: "nat \<Rightarrow> nat" where
  "hexDigitLower d = (if d < 10 then 48 + d else 87 + d)"

fun hexText :: "nat \<Rightarrow> jsstring" where
  "hexText n = (if n < 16 then [hexDigitLower n] else hexText (n div 16) @ [hexDigitLower (n mod 16)])"

definition padStart2 :: "jsstring \<Rightarrow> jsstring" where
  "padStart2 s = replicate (2 - length s) 48 @ s"

definition toUpperCase :: "jsstring \<Rightarrow> jsstring" where
  "toUpperCase s = map (\<lambda>c. if 97 \<le> c \<and> c \<le> 122 then c - 32 else c) s"

definition hexByte :: "nat \<Rightarrow> jsstring" where
  "hexByte b = toUpperCase (padStart2 (hexText b))"

subsection \<open>Regular expressions of the module\<close>

text \<open>
  \<^verbatim>\<open>s.match(/PREFIX(.+)/)\<close>: the leftmost place where the prefix is followed by at least
  one code unit that is not a line terminator; the group is the longest such run.
  \<open>None\<close> is the \<^verbatim>\<open>null\<close> of a failed match, \<open>Some g\<close> carries group 1.
\<close>

fun matchField :: "jsstring \<Rightarrow> jsstring \<Rightarrow> jsstring option" where
  "matchField pre [] = None"
| "matchField pre (c # cs) =
     (let g = takeWhile (\<lambda>x. \<not> isLineTerminator x) (drop (length pre) (c # cs))
      in if take (length pre) (c # cs) = pre \<and> g \<noteq> [] then Some g else matchField pre cs)"

text \<open>
  \<^verbatim>\<open>/(\d+\.\d+\.\d+\.\d+) (\d+) typ (\w+)/\<close> tried at the head of a string. Every
  repetition is followed by a code unit outside its class, so the greedy runs are the
  only way to match. The result is the three groups.
\<close>

definition digitsThen :: "nat \<Rightarrow> jsstring \<Rightarrow> (jsstring \<times> jsstring) option" where
  "digitsThen sep s =
     (let ds = takeWhile isDigit s; r = dropWhile isDigit s
      in if ds \<noteq> [] \<and> r \<noteq> [] \<and> hd r = sep then Some (ds, tl r) else None)"

definition matchCandidateHere :: "jsstring \<Rightarrow> (jsstring \<times> jsstring \<times> jsstring) option" where
  "matchCandidateHere s =
     (case digitsThen 46 s of None \<Rightarrow> None | Some (a, s1) \<Rightarrow>
      case digitsThen 46 s1 of None \<Rightarrow> None | Some (b, s2) \<Rightarrow>
      case digitsThen 46 s2 of None \<Rightarrow> None | Some (c, s3) \<Rightarrow>
      case digitsThen 32 s3 of None \<Rightarrow> None | Some (d, s4) \<Rightarrow>
      case digitsThen 32 s4 of None \<Rightarrow> None | Some (port, s5) \<Rightarrow>
        if take 4 s5 = lit ''typ '' \<and> takeWhile isWordChar (drop 4 s5) \<noteq> []
        then Some (a @ [46] @ b @ [46] @ c @ [46] @ d, port, takeWhile isWordChar (drop 4 s5))
        else None)"

fun matchCandidate :: "jsstring \<Rightarrow> (jsstring \<times> jsstring \<times> jsstring) option" where
  "matchCandidate [] = None"
| "matchCandidate (c # cs) =
     (case matchCandidateHere (c # cs) of Some m \<Rightarrow> Some m | None \<Rightarrow> matchCandidate cs)"

subsection \<open>\<^verbatim>\<open>btoa\<close> and \<^verbatim>\<open>atob\<close>\<close>

definition b64char :: "nat \<Rightarrow> nat" where
  "b64char i =
     (if i < 26 then 65 + i else if i < 52 then 71 + i else if i < 62 then i - 4
      else if i = 62 then 43 else 47)"

definition b64index :: "nat \<Rightarrow> nat option" where
  "b64index c =
     (if 65 \<le> c \<and> c \<le> 90 then Some (c - 65)
      else if 97 \<le> c \<and> c \<le> 122 then Some (c - 71)
      else if 48 \<le> c \<and> c \<le> 57 then Some (c + 4)
      else if c = 43 then Some 62
      else if c = 47 then Some 63
      else None)"

fun encodeGroups :: "nat list \<Rightarrow> jsstring" where
  "encodeGroups [] = []"
| "encodeGroups [a] = [b64char (a div 4), b64char ((a mod 4) * 16), 61, 61]"
| "encodeGroups [a, b] =
     [b64char (a div 4), b64char ((a mod 4) * 16 + b div 16), b64char ((b mod 16) * 4), 61]"
| "encodeGroups (a # b # c # r) =
     [b64char (a div 4), b64char ((a mod 4) * 16 + b div 16),
      b64char ((b mod 16) * 4 + c div 64), b64char (c mod 64)] @ encodeGroups r"

text \<open>\<^verbatim>\<open>btoa\<close> throws on a code unit above 255.\<close>

definition btoa :: "jsstring \<Rightarrow> js_error + jsstring" where
  "btoa s = (if \<exists>c \<in> set s. 255 < c then Inl InvalidCharacterError else Inr (encodeGroups s))"

fun decodeGroups :: "nat list \<Rightarrow> nat list" where
  "decodeGroups (a # b # c # d # r) =
     [a * 4 + b div 16, (b mod 16) * 16 + c div 4, (c mod 4) * 64 + d] @ decodeGroups r"
| "decodeGroups [a, b, c] = [a * 4 + b div 16, (b mod 16) * 16 + c div 4]"
| "decodeGroups [a, b] = [a * 4 + b div 16]"
| "decodeGroups _ = []"

definition isAsciiWhitespace :: "nat \<Rightarrow> bool" where
  "isAsciiWhitespace c = (c = 9 \<or> c = 10 \<or> c = 12 \<or> c = 13 \<or> c = 32)"

definition stripPadding :: "jsstring \<Rightarrow> jsstring" where
  "stripPadding t =
     (if length t mod 4 = 0 \<and> t \<noteq> [] \<and> last t = 61
      then (if butlast t \<noteq> [] \<and> last (butlast t) = 61 then butlast (butlast t) else butlast t)
      else t)"

text \<open>
  \<^verbatim>\<open>atob\<close> (forgiving base64): ASCII white space is dropped, one or two closing
  \<^verbatim>\<open>=\<close> go when the length is a multiple of four, a length of one modulo four or a
  code unit outside the alphabet throws, and the spare low bits of a last short group
  are dropped.
\<close>

definition atob :: "jsstring \<Rightarrow> js_error + jsstring" where
  "atob s =
     (let t = stripPadding (filter (\<lambda>c. \<not> isAsciiWhitespace c) s)
      in if length t mod 4 = 1 \<or> (\<exists>c \<in> set t. b64index c = None) then Inl InvalidCharacterError
         else Inr (decodeGroups (map (\<lambda>c. the (b64index c)) t)))"

subsection \<open>JSON values, \<^verbatim>\<open>JSON.stringify\<close>\<close>

text \<open>
  A Number inside a JSON value is named by its numeric text; an object is the list of
  its members in property order.
\<close>

datatype json =
    JNull
  | JBool bool
  | JNum jsstring
  | JStr jsstring
  | JArr "json list"
  | JObj "(jsstring \<times> json) list"

definition isHighSurrogate :: "nat \<Rightarrow> bool" where
  "isHighSurrogate c = (55296 \<le> c \<and> c \<le> 56319)"

definition isLowSurrogate :: "nat \<Rightarrow> bool" where
  "isLowSurrogate c = (56320 \<le> c \<and> c \<le> 57343)"

definition unicodeEscape :: "nat \<Rightarrow> jsstring" where
  "unicodeEscape c =
     [92, 117, hexDigitLower (c div 4096 mod 16), hexDigitLower (c div 256 mod 16),
      hexDigitLower (c div 16 mod 16), hexDigitLower (c mod 16)]"

text \<open>
  The body of \<^verbatim>\<open>QuoteJSONString\<close>: the two-character escapes, \<^verbatim>\<open>\u00xx\<close> for the
  other control characters and for a surrogate without its partner, everything else as
  it is.
\<close>

fun quoteChars :: "jsstring \<Rightarrow> jsstring" where
  "quoteChars [] = []"
| "quoteChars (c # cs) =
     (if c = 8 then [92, 98] @ quoteChars cs
      else if c = 9 then [92, 116] @ quoteChars cs
      else if c = 10 then [92, 110] @ quoteChars cs
      else if c = 12 then [92, 102] @ quoteChars cs
      else if c = 13 then [92, 114] @ quoteChars cs
      else if c = 34 then [92, 34] @ quoteChars cs
      else if c = 92 then [92, 92] @ quoteChars cs
      else if c < 32 then unicodeEscape c @ quoteChars cs
      else if isHighSurrogate c then
        (case cs of
           [] \<Rightarrow> unicodeEscape c
         | d # ds \<Rightarrow>
             if isLowSurrogate d then c # d # quoteChars ds
             else unicodeEscape c @ quoteChars cs)
      else if isLowSurrogate c then unicodeEscape c @ quoteChars cs
      else c # quoteChars cs)"

definition quote :: "jsstring \<Rightarrow> jsstring" where
  "quote s = [34] @ quoteChars s @ [34]"

fun stringify :: "json \<Rightarrow> jsstring"
  and stringifyElements :: "json list \<Rightarrow> jsstring"
  and stringifyMembers :: "(jsstring \<times> json) list \<Rightarrow> jsstring" where
  "stringify JNull = lit ''null''"
| "stringify (JBool b) = (if b then lit ''true'' else lit ''false'')"
| "stringify (JNum l) = l"
| "stringify (JStr s) = quote s"
| "stringify (JArr vs) = [91] @ stringifyElements vs @ [93]"
| "stringify (JObj ms) = [123] @ stringifyMembers ms @ [125]"
| "stringifyElements [] = []"
| "stringifyElements [v] = stringify v"
| "stringifyElements (v # w # vs) = stringify v @ [44] @ stringifyElements (w # vs)"
| "stringifyMembers [] = []"
| "stringifyMembers [(k, v)] = quote k @ [58] @ stringify v"
| "stringifyMembers ((k, v) # m # ms) = quote k @ [58] @ stringify v @ [44] @ stringifyMembers (m # ms)"

subsection \<open>\<^verbatim>\<open>JSON.parse\<close>: tokens\<close>

datatype token =
    TLBrace | TRBrace | TLBracket | TRBracket | TColon | TComma
  | TString jsstring | TNumber jsstring | TTrue | TFalse | TNull

definition hex4 :: "jsstring \<Rightarrow> nat option" where
  "hex4 hs =
     (if length hs = 4 \<and> (\<forall>h \<in> set hs. isRadixDigit 16 h) then Some (digitsValue 16 hs) else None)"

definition unescape :: "nat \<Rightarrow> nat option" where
  "unescape e =
     (if e = 34 then Some 34 else if e = 92 then Some 92 else if e = 47 then Some 47
      else if e = 98 then Some 8 else if e = 102 then Some 12 else if e = 110 then Some 10
      else if e = 114 then Some 13 else if e = 116 then Some 9 else None)"

text \<open>
  A string literal after its opening quote: the characters it denotes and the text
  after its closing quote.
\<close>

fun lexString :: "jsstring \<Rightarrow> (jsstring \<times> jsstring) option" where
  "lexString [] = None"
| "lexString (c # cs) =
     (if c = 34 then Some ([], cs)
      else if c = 92 then
        (case cs of
           [] \<Rightarrow> None
         | e # es \<Rightarrow>
             if e = 117 then
               (case es of
                  h1 # h2 # h3 # h4 # r \<Rightarrow>
                    (case hex4 [h1, h2, h3, h4] of
                       None \<Rightarrow> None
                     | Some u \<Rightarrow>
                         (case lexString r of None \<Rightarrow> None | Some (s, r') \<Rightarrow> Some (u # s, r')))
                | _ \<Rightarrow> None)
             else
               (case unescape e of
                  None \<Rightarrow> None
                | Some u \<Rightarrow>
                    (case lexString es of None \<Rightarrow> None | Some (s, r') \<Rightarrow> Some (u # s, r'))))
      else if c < 32 then None
      else (case lexString cs of None \<Rightarrow> None | Some (s, r') \<Rightarrow> Some (c # s, r')))"

text \<open>
  A numeric literal at the head of a text: \<^verbatim>\<open>-? (0 | [1-9][0-9]*) (.[0-9]+)? ([eE][+-]?[0-9]+)?\<close>,
  the longest one, and the text after it.
\<close>

definition lexFraction :: "jsstring \<Rightarrow> jsstring \<times> jsstring" where
  "lexFraction s =
     (case s of
        c # r \<Rightarrow>
          if c = 46 \<and> takeWhile isDigit r \<noteq> [] then (46 # takeWhile isDigit r, dropWhile isDigit r)
          else ([], s)
      | [] \<Rightarrow> ([], s))"

definition lexExponent :: "jsstring \<Rightarrow> jsstring \<times> jsstring" where
  "lexExponent s =
     (case s of
        c # r \<Rightarrow>
          if c = 101 \<or> c = 69 then
            (let sg = (if r \<noteq> [] \<and> (hd r = 43 \<or> hd r = 45) then [hd r] else []);
                 r1 = drop (length sg) r
             in if takeWhile isDigit r1 \<noteq> []
                then (c # sg @ takeWhile isDigit r1, dropWhile isDigit r1)
                else ([], s))
          else ([], s)
      | [] \<Rightarrow> ([], s))"

definition lexNumber :: "jsstring \<Rightarrow> (jsstring \<times> jsstring) option" where
  "lexNumber s =
     (let sg = (if s \<noteq> [] \<and> hd s = 45 then [45] else []);
          s1 = drop (length sg) s;
          ip = (if s1 \<noteq> [] \<and> hd s1 = 48 then [48] else takeWhile isDigit s1);
          s2 = drop (length ip) s1;
          (fr, s3) = lexFraction s2;
          (ex, s4) = lexExponent s3
      in if ip = [] then None else Some (sg @ ip @ fr @ ex, s4))"

lemma lexString_shorter: "lexString cs = Some (s, r) \<Longrightarrow> length r < Suc (length cs)"
proof (induction cs arbitrary: s r rule: lexString.induct)
  case 1
  then show ?case by simp
next
  case (2 c cs)
  show ?case
  proof (cases "c = 34")
    case True
    with "2.prems" show ?thesis by simp
  next
    case notq: False
    show ?thesis
    proof (cases "c = 92")
      case False
      with notq "2.prems" "2.IH"(3) show ?thesis
        by (fastforce split: if_splits option.splits)
    next
      case bs: True
      show ?thesis
      proof (cases cs)
        case Nil
        with bs notq "2.prems" show ?thesis by simp
      next
        case (Cons e es)
        show ?thesis
        proof (cases "e = 117")
          case False
          with bs notq Cons "2.prems" "2.IH"(2) show ?thesis
            by (fastforce split: option.splits)
        next
          case True
          with bs notq Cons "2.prems" "2.IH"(1) show ?thesis
            by (fastforce split: list.splits option.splits)
        qed
      qed
    qed
  qed
qed

lemma lexNumber_shorter: "lexNumber (c # cs) = Some (l, r) \<Longrightarrow> length r < Suc (length cs)"
proof -
  assume a: "lexNumber (c # cs) = Some (l, r)"
  have fr: "length (snd (lexFraction x)) \<le> length x" for x
    by (auto simp: lexFraction_def length_dropWhile_le le_SucI split: list.splits)
  have ex: "length (snd (lexExponent x)) \<le> length x" for x
    by (auto simp: lexExponent_def Let_def length_dropWhile_le le_SucI
        intro: order_trans[OF length_dropWhile_le] split: list.splits)
  define sg where "sg = (if hd (c # cs) = 45 then [45::nat] else [])"
  define s1 where "s1 = drop (length sg) (c # cs)"
  define ip where "ip = (if s1 \<noteq> [] \<and> hd s1 = 48 then [48] else takeWhile isDigit s1)"
  from a have nonempty: "ip \<noteq> []" and r: "r = snd (lexExponent (snd (lexFraction (drop (length ip) s1))))"
    by (auto simp: lexNumber_def Let_def sg_def s1_def ip_def split: prod.splits if_splits)
  have "length ip \<le> length s1"
    by (auto simp: ip_def length_takeWhile_le Suc_leI)
  with nonempty have "length (drop (length ip) s1) < length s1"
    by (cases ip) auto
  moreover have "length s1 \<le> Suc (length cs)" by (simp add: s1_def)
  moreover have "length r \<le> length (drop (length ip) s1)"
    unfolding r by (rule order_trans[OF ex fr])
  ultimately show ?thesis by linarith
qed

text \<open>The tokens of a text; \<open>None\<close> when some part of it is no token.\<close>

definition startsWith :: "jsstring \<Rightarrow> jsstring \<Rightarrow> bool" where
  "startsWith p s = (take (length p) s = p)"

function lex :: "jsstring \<Rightarrow> token list option" where
  "lex [] = Some []"
| "lex (c # cs) =
     (if c = 32 \<or> c = 9 \<or> c = 10 \<or> c = 13 then lex cs
      else if c = 123 then map_option (Cons TLBrace) (lex cs)
      else if c = 125 then map_option (Cons TRBrace) (lex cs)
      else if c = 91 then map_option (Cons TLBracket) (lex cs)
      else if c = 93 then map_option (Cons TRBracket) (lex cs)
      else if c = 58 then map_option (Cons TColon) (lex cs)
      else if c = 44 then map_option (Cons TComma) (lex cs)
      else if c = 34 then
        (case lexString cs of
           None \<Rightarrow> None
         | Some (s, r) \<Rightarrow> map_option (Cons (TString s)) (lex r))
      else if startsWith (lit ''true'') (c # cs) then map_option (Cons TTrue) (lex (drop 3 cs))
      else if startsWith (lit ''false'') (c # cs) then map_option (Cons TFalse) (lex (drop 4 cs))
      else if startsWith (lit ''null'') (c # cs) then map_option (Cons TNull) (lex (drop 3 cs))
      else
        (case lexNumber (c # cs) of
           None \<Rightarrow> None
         | Some (l, r) \<Rightarrow> map_option (Cons (TNumber l)) (lex r)))"
  by pat_completeness auto
termination
  by (relation "measure length") (auto dest: lexString_shorter lexNumber_shorter)

subsection \<open>\<^verbatim>\<open>JSON.parse\<close>: from tokens to a value\<close>

text \<open>
  The grammar is read by a machine with a stack of open arrays and objects (their
  parts so far, latest first) and a mode saying what may come next.
\<close>

datatype frame =
    InArray "json list"
  | InObject "(jsstring \<times> json) list"
  | InMember "(jsstring \<times> json) list" jsstring

datatype mode =
    WantValue | WantFirst | WantKey0 | WantKey | WantColon | WantMore | Finished json

fun deliver :: "json \<Rightarrow> frame list \<Rightarrow> (frame list \<times> mode) option" where
  "deliver v [] = Some ([], Finished v)"
| "deliver v (InArray vs # fs) = Some (InArray (v # vs) # fs, WantMore)"
| "deliver v (InMember ms k # fs) = Some (InObject ((k, v) # ms) # fs, WantMore)"
| "deliver v (InObject ms # fs) = None"

fun valueStart :: "token \<Rightarrow> frame list \<Rightarrow> (frame list \<times> mode) option" where
  "valueStart TLBracket fs = Some (InArray [] # fs, WantFirst)"
| "valueStart TLBrace fs = Some (InObject [] # fs, WantKey0)"
| "valueStart (TString s) fs = deliver (JStr s) fs"
| "valueStart (TNumber l) fs = deliver (JNum l) fs"
| "valueStart TTrue fs = deliver (JBool True) fs"
| "valueStart TFalse fs = deliver (JBool False) fs"
| "valueStart TNull fs = deliver JNull fs"
| "valueStart _ fs = None"

fun keyStart :: "token \<Rightarrow> frame list \<Rightarrow> (frame list \<times> mode) option" where
  "keyStart (TString k) (InObject ms # fs) = Some (InMember ms k # fs, WantColon)"
| "keyStart _ _ = None"

fun more :: "token \<Rightarrow> frame list \<Rightarrow> (frame list \<times> mode) option" where
  "more TComma (InArray vs # fs) = Some (InArray vs # fs, WantValue)"
| "more TRBracket (InArray vs # fs) = deliver (JArr (rev vs)) fs"
| "more TComma (InObject ms # fs) = Some (InObject ms # fs, WantKey)"
| "more TRBrace (InObject ms # fs) = deliver (JObj (rev ms)) fs"
| "more _ _ = None"

fun step :: "token \<Rightarrow> frame list \<times> mode \<Rightarrow> (frame list \<times> mode) option" where
  "step t (fs, WantValue) = valueStart t fs"
| "step t (fs, WantFirst) = (if t = TRBracket then more t fs else valueStart t fs)"
| "step t (fs, WantKey0) = (if t = TRBrace then more t fs else keyStart t fs)"
| "step t (fs, WantKey) = keyStart t fs"
| "step t (fs, WantColon) = (if t = TColon then Some (fs, WantValue) else None)"
| "step t (fs, WantMore) = more t fs"
| "step t (fs, Finished v) = None"

fun run :: "token list \<Rightarrow> frame list \<times> mode \<Rightarrow> (frame list \<times> mode) option" where
  "run [] st = Some st"
| "run (t # ts) st = (case step t st of None \<Rightarrow> None | Some st' \<Rightarrow> run ts st')"

text \<open>\<^verbatim>\<open>JSON.parse\<close> throws a SyntaxError on a text that is not one JSON value.\<close>

definition JSON_parse :: "jsstring \<Rightarrow> js_error + json" where
  "JSON_parse s =
     (case lex s of
        None \<Rightarrow> Inl SyntaxError
      | Some ts \<Rightarrow>
          (case run ts ([], WantValue) of
             Some ([], Finished v) \<Rightarrow> Inr v
           | _ \<Rightarrow> Inl SyntaxError))"

subsection \<open>Reading a parsed value\<close>

text \<open>
  \<^verbatim>\<open>data.k\<close> for a key that no prototype defines (the module reads \<^verbatim>\<open>t\<close>, \<^verbatim>\<open>u\<close>,
  \<^verbatim>\<open>p\<close>, \<^verbatim>\<open>f\<close>, \<^verbatim>\<open>c\<close>): the last member of that name in an object, \<open>None\<close>
  (\<^verbatim>\<open>undefined\<close>) otherwise. Reading a property of \<^verbatim>\<open>null\<close> throws.
\<close>

definition getProp :: "json \<Rightarrow> jsstring \<Rightarrow> js_error + json option" where
  "getProp data k =
     (case data of
        JNull \<Rightarrow> Inl TypeError
      | JObj ms \<Rightarrow> Inr (map_of (rev ms) k)
      | _ \<Rightarrow> Inr None)"

definition property :: "json \<Rightarrow> jsstring \<Rightarrow> json option" where
  "property data k = (case getProp data k of Inl e \<Rightarrow> None | Inr v \<Rightarrow> v)"

text \<open>
  The string a value turns into under concatenation, in a template or as an argument of
  \<^verbatim>\<open>atob\<close>. An array joins its elements with commas, \<^verbatim>\<open>null\<close> elements as the empty
  string; an object is \<^verbatim>\<open>[object Object]\<close> unless a member named \<^verbatim>\<open>toString\<close> hides
  the inherited method, which throws.
\<close>

fun toString :: "platform \<Rightarrow> json \<Rightarrow> js_error + jsstring"
  and joinElements :: "platform \<Rightarrow> json list \<Rightarrow> js_error + jsstring" where
  "toString pf JNull = Inr (lit ''null'')"
| "toString pf (JBool b) = Inr (if b then lit ''true'' else lit ''false'')"
| "toString pf (JNum l) = Inr (number_text pf l)"
| "toString pf (JStr s) = Inr s"
| "toString pf (JArr vs) = joinElements pf vs"
| "toString pf (JObj ms) =
     (if lit ''toString'' \<in> fst ` set ms then Inl TypeError else Inr (lit ''[object Object]''))"
| "joinElements pf [] = Inr []"
| "joinElements pf (v # vs) =
     (case (if v = JNull then Inr [] else toString pf v) of
        Inl e \<Rightarrow> Inl e
      | Inr x \<Rightarrow>
          (case joinElements pf vs of
             Inl e \<Rightarrow> Inl e
           | Inr y \<Rightarrow> Inr (if vs = [] then x else x @ [44] @ y)))"

definition toStringOpt :: "platform \<Rightarrow> json option \<Rightarrow> js_error + jsstring" where
  "toStringOpt pf v = (case v of None \<Rightarrow> Inr (lit ''undefined'') | Some x \<Rightarrow> toString pf x)"

text \<open>The values \<^verbatim>\<open>||\<close> passes over.\<close>

definition falsy :: "platform \<Rightarrow> json option \<Rightarrow> bool" where
  "falsy pf v =
     (case v of
        None \<Rightarrow> True
      | Some JNull \<Rightarrow> True
      | Some (JBool b) \<Rightarrow> \<not> b
      | Some (JNum l) \<Rightarrow> number_falsy pf l
      | Some (JStr s) \<Rightarrow> s = []
      | Some _ \<Rightarrow> False)"

section \<open>The negotiation codec\<close>

record description =
  type :: jsstring
  sdp :: jsstring

record ice_candidate =
  candidate :: jsstring
  sdpMid :: jsstring
  sdpMLineIndex :: nat

subsection \<open>\<^verbatim>\<open>compressSignaling\<close>\<close>

text \<open>\<^verbatim>\<open>ToInt32\<close>, which the bitwise operators apply to their operands; NaN gives \<open>0\<close>.\<close>

definition toInt32 :: "int option \<Rightarrow> int" where
  "toInt32 n =
     (case n of
        None \<Rightarrow> 0
      | Some v \<Rightarrow> (let u = v mod 2 ^ 32 in if 2 ^ 31 \<le> u then u - 2 ^ 32 else u))"

text \<open>
  The callback of \<^verbatim>\<open>.map\<close> over the candidates: \<open>Inr None\<close> is the \<^verbatim>\<open>null\<close> it
  returns when the pattern does not match, \<open>Inl\<close> what \<^verbatim>\<open>btoa\<close> throws.
  \<^verbatim>\<open>(portNum >> 8) & 0xff\<close> and \<^verbatim>\<open>portNum & 0xff\<close> are written with \<open>div\<close> and
  \<open>mod\<close> on the 32-bit integer.
\<close>

definition compressCandidate :: "platform \<Rightarrow> ice_candidate \<Rightarrow> js_error + jsstring option" where
  "compressCandidate pf c =
     (case matchCandidate (candidate c) of
        None \<Rightarrow> Inr None
      | Some (ip, port, typ) \<Rightarrow>
          (let ipParts = map (NumberOfDigits pf) (split 46 ip);
               portNum = parseInt pf port 0;
               bytes = map Some ipParts
                 @ [Some (toInt32 portNum div 256 mod 256), Some (toInt32 portNum mod 256)]
           in case btoa (map fromCharCode bytes) of
                Inl e \<Rightarrow> Inl e
              | Inr b \<Rightarrow> Inr (Some (b @ [58] @ take 1 typ))))"

fun mapCandidates :: "platform \<Rightarrow> ice_candidate list \<Rightarrow> js_error + jsstring option list" where
  "mapCandidates pf [] = Inr []"
| "mapCandidates pf (c # cs) =
     (case compressCandidate pf c of
        Inl e \<Rightarrow> Inl e
      | Inr x \<Rightarrow>
          (case mapCandidates pf cs of Inl e \<Rightarrow> Inl e | Inr xs \<Rightarrow> Inr (x # xs)))"

text \<open>
  A candidate of the list may be \<^verbatim>\<open>null\<close> (\<open>None\<close>). The result is the token, or what
  was thrown.
\<close>

definition compressSignaling ::
  "platform \<Rightarrow> description \<Rightarrow> ice_candidate option list \<Rightarrow> js_error + jsstring" where
  "compressSignaling pf description candidates =
     (let iceUfragMatch = matchField (lit ''a=ice-ufrag:'') (sdp description);
          icePwdMatch = matchField (lit ''a=ice-pwd:'') (sdp description);
          fingerprintMatch = matchField (lit ''a=fingerprint:sha-256 '') (sdp description)
      in if iceUfragMatch = None \<or> icePwdMatch = None \<or> fingerprintMatch = None
         then Inl (Error (lit ''Could not extract required SDP fields''))
         else
           (let iceUfrag = trim (the iceUfragMatch);
                icePwd = trim (the icePwdMatch);
                fingerprint = trim (the fingerprintMatch);
                fingerprintBytes = map (\<lambda>h. parseInt pf h 16) (split 58 fingerprint)
            in case btoa (map fromCharCode fingerprintBytes) of
                 Inl e \<Rightarrow> Inl e
               | Inr fingerprintB64 \<Rightarrow>
                   (case mapCandidates pf [c. Some c \<leftarrow> candidates, candidate c \<noteq> []] of
                      Inl e \<Rightarrow> Inl e
                    | Inr mapped \<Rightarrow>
                        (let compressedCandidates = take 5 [x. Some x \<leftarrow> mapped, x \<noteq> []];
                             data = JObj
                               [(lit ''t'', JStr (if type description = lit ''offer'' then lit ''o'' else lit ''a'')),
                                (lit ''u'', JStr iceUfrag),
                                (lit ''p'', JStr icePwd),
                                (lit ''f'', JStr fingerprintB64),
                                (lit ''c'', JArr (map JStr compressedCandidates))]
                         in btoa (stringify data)))))"

subsection \<open>\<^verbatim>\<open>decompressSignaling\<close>\<close>

text \<open>\<^verbatim>\<open>bytes[i]\<close> under a bitwise operator: a missing element counts as \<open>0\<close>.\<close>

definition byteAt :: "nat list \<Rightarrow> nat \<Rightarrow> nat" where
  "byteAt bytes i = (if i < length bytes then bytes ! i else 0)"

text \<open>
  \<^verbatim>\<open>{ h: 'host', s: 'srflx', r: 'relay' }[typChar] || 'host'\<close>, as the template then
  prints it. A name that the object inherits from \<^verbatim>\<open>Object.prototype\<close> finds the
  inherited value, whose text is the host's.
\<close>

definition objectPrototypeKeys :: "jsstring list" where
  "objectPrototypeKeys = map lit
     [''constructor'', ''hasOwnProperty'', ''isPrototypeOf'', ''propertyIsEnumerable'',
      ''toLocaleString'', ''toString'', ''valueOf'', ''__proto__'', ''__defineGetter__'',
      ''__defineSetter__'', ''__lookupGetter__'', ''__lookupSetter__'']"

definition typText :: "platform \<Rightarrow> jsstring option \<Rightarrow> jsstring" where
  "typText pf typChar =
     (case typChar of
        None \<Rightarrow> lit ''host''
      | Some k \<Rightarrow>
          if k = lit ''h'' then lit ''host''
          else if k = lit ''s'' then lit ''srflx''
          else if k = lit ''r'' then lit ''relay''
          else if k \<in> set objectPrototypeKeys then inherited_text pf k
          else lit ''host'')"

text \<open>
  The callback of \<^verbatim>\<open>.map\<close> over \<^verbatim>\<open>data.c\<close>; an element that is not a string has no
  \<^verbatim>\<open>split\<close>, which throws.
\<close>

definition decompressCandidate :: "platform \<Rightarrow> json \<Rightarrow> nat \<Rightarrow> js_error + ice_candidate" where
  "decompressCandidate pf c index =
     (case c of
        JStr s \<Rightarrow>
          (let parts = split 58 s;
               b64 = hd parts;
               typChar = (if 1 < length parts then Some (parts ! 1) else None)
           in case atob b64 of
                Inl e \<Rightarrow> Inl e
              | Inr bytes \<Rightarrow>
                  (let ip = join [46] (map natText (take 4 bytes));
                       port = push_bit 8 (byteAt bytes 4) OR byteAt bytes 5;
                       typ = typText pf typChar
                   in Inr \<lparr>candidate =
                            lit ''candidate:'' @ natText index @ lit '' 1 udp ''
                            @ intText (2113937151 - int index * 100) @ lit '' '' @ ip @ lit '' ''
                            @ natText port @ lit '' typ '' @ typ,
                          sdpMid = lit ''0'',
                          sdpMLineIndex = 0\<rparr>))
      | _ \<Rightarrow> Inl TypeError)"

fun decompressCandidates :: "platform \<Rightarrow> json list \<Rightarrow> nat \<Rightarrow> js_error + ice_candidate list" where
  "decompressCandidates pf [] index = Inr []"
| "decompressCandidates pf (c # cs) index =
     (case decompressCandidate pf c index of
        Inl e \<Rightarrow> Inl e
      | Inr x \<Rightarrow>
          (case decompressCandidates pf cs (Suc index) of
             Inl e \<Rightarrow> Inl e
           | Inr xs \<Rightarrow> Inr (x # xs)))"

text \<open>The reconstructed minimal SDP, from the four values that vary.\<close>

definition minimalSdp :: "nat \<Rightarrow> jsstring \<Rightarrow> jsstring \<Rightarrow> jsstring \<Rightarrow> jsstring \<Rightarrow> jsstring" where
  "minimalSdp time iceUfrag icePwd fingerprint type' =
     join [13, 10]
       [lit ''v=0'',
        lit ''o=- '' @ natText time @ lit '' 2 IN IP4 127.0.0.1'',
        lit ''s=-'',
        lit ''t=0 0'',
        lit ''a=group:BUNDLE 0'',
        lit ''a=msid-semantic: WMS'',
        lit ''m=application 9 UDP/DTLS/SCTP webrtc-datachannel'',
        lit ''c=IN IP4 0.0.0.0'',
        lit ''a=ice-ufrag:'' @ iceUfrag,
        lit ''a=ice-pwd:'' @ icePwd,
        lit ''a=ice-options:trickle'',
        lit ''a=fingerprint:sha-256 '' @ fingerprint,
        lit ''a=setup:'' @ (if type' = lit ''offer'' then lit ''actpass'' else lit ''active''),
        lit ''a=mid:0'',
        lit ''a=sctp-port:5000'',
        lit ''a=max-message-size:262144'']
     @ [13, 10]"

definition decompressSignaling ::
  "platform \<Rightarrow> jsstring \<Rightarrow> js_error + description \<times> ice_candidate list" where
  "decompressSignaling pf compressed =
     (case atob compressed of
        Inl e \<Rightarrow> Inl e
      | Inr text \<Rightarrow>
     (case JSON_parse text of
        Inl e \<Rightarrow> Inl e
      | Inr data \<Rightarrow>
     (case getProp data (lit ''t'') of
        Inl e \<Rightarrow> Inl e
      | Inr t \<Rightarrow>
     (let type' = (if t = Some (JStr (lit ''o'')) then lit ''offer'' else lit ''answer'');
          iceUfrag = property data (lit ''u'');
          icePwd = property data (lit ''p'')
      in case toStringOpt pf (property data (lit ''f'')) of
        Inl e \<Rightarrow> Inl e
      | Inr f \<Rightarrow>
     (case atob f of
        Inl e \<Rightarrow> Inl e
      | Inr fingerprintBytes \<Rightarrow>
     (let fingerprint = join [58] (map hexByte fingerprintBytes)
      in case (if falsy pf (property data (lit ''c'')) then Inr []
               else (case property data (lit ''c'') of
                       Some (JArr cs) \<Rightarrow> decompressCandidates pf cs 0
                     | _ \<Rightarrow> Inl TypeError)) of
        Inl e \<Rightarrow> Inl e
      | Inr candidates \<Rightarrow>
     (case toStringOpt pf iceUfrag of
        Inl e \<Rightarrow> Inl e
      | Inr u \<Rightarrow>
     (case toStringOpt pf icePwd of
        Inl e \<Rightarrow> Inl e
      | Inr p \<Rightarrow>
          Inr (\<lparr>type = type', sdp = minimalSdp (now pf) u p fingerprint type'\<rparr>,
               candidates)))))))))"

section \<open>The connection manager\<close>

subsection \<open>The engine's objects and the manager's variables\<close>

datatype DirectConnectionState =
  IDLE | OFFERING | ANSWERING | CONNECTING | CONNECTED | DISCONNECTED | FAILED

text \<open>
  The values of \<^verbatim>\<open>iceConnectionState\<close>, \<^verbatim>\<open>connectionState\<close>, \<^verbatim>\<open>iceGatheringState\<close> and
  of a channel's \<^verbatim>\<open>readyState\<close>.
\<close>

datatype ice_connection_state =
  IceNew | IceChecking | IceConnected | IceCompleted | IceFailed | IceDisconnected | IceClosed

datatype peer_connection_state =
  PcNew | PcConnecting | PcConnected | PcDisconnected | PcFailed | PcClosed

datatype ice_gathering_state = GatheringNew | Gathering | GatheringComplete

datatype ready_state = ChConnecting | ChOpen | ChClosing | ChClosed

datatype promise = Pending | Resolved jsstring | Rejected js_error

text \<open>
  An \<^verbatim>\<open>RTCPeerConnection\<close> as the manager sees it. \<open>onicegatheringstatechange\<close> is
  the promise whose \<^verbatim>\<open>checkCandidates\<close> is installed as that handler, if any;
  \<open>closed\<close> records a call of \<^verbatim>\<open>close()\<close>.
\<close>

record rtc_peer_connection =
  iceConnectionState :: ice_connection_state
  connectionState :: peer_connection_state
  iceGatheringState :: ice_gathering_state
  localDescription :: "description option"
  remoteDescription :: "description option"
  remoteCandidates :: "ice_candidate list"
  onicegatheringstatechange :: "nat option"
  closed :: bool

text \<open>
  An \<^verbatim>\<open>RTCDataChannel\<close>: \<open>sent\<close> lists what was handed to \<^verbatim>\<open>send\<close>, \<open>closeCalled\<close>
  records a call of \<^verbatim>\<open>close()\<close>.
\<close>

record rtc_data_channel =
  readyState :: ready_state
  sent :: "jsstring list"
  closeCalled :: bool

text \<open>
  The variables closed over by \<^verbatim>\<open>createDirectConnection\<close> (\<open>state\<close>, \<open>pc\<close>,
  \<open>dataChannel\<close>, \<open>localCandidates\<close>, \<open>iceCandidateTimeout\<close>), what each callback has
  been called with, and the host's side: the engine handles and channels the manager has
  attached its handlers to, the pending timers with the promise each one settles, and
  the promises handed out. \<open>pc\<close>, \<open>dataChannel\<close> and \<open>iceCandidateTimeout\<close> hold
  references; \<open>None\<close> is \<^verbatim>\<open>null\<close>.
\<close>

record manager =
  state :: DirectConnectionState
  pc :: "nat option"
  dataChannel :: "nat option"
  localCandidates :: "ice_candidate list"
  iceCandidateTimeout :: "nat option"
  onStateChange :: "DirectConnectionState list"
  onMessage :: "(jsstring + json) list"
  onError :: "js_error list"
  connections :: "nat \<rightharpoonup> rtc_peer_connection"
  channels :: "nat \<rightharpoonup> rtc_data_channel"
  timers :: "(nat \<times> nat) list"
  promises :: "nat \<rightharpoonup> promise"
  nextId :: nat

definition createDirectConnection :: manager where
  "createDirectConnection =
     \<lparr>state = IDLE, pc = None, dataChannel = None, localCandidates = [],
      iceCandidateTimeout = None, onStateChange = [], onMessage = [], onError = [],
      connections = Map.empty, channels = Map.empty, timers = [], promises = Map.empty,
      nextId = 1\<rparr>"

definition getState :: "manager \<Rightarrow> DirectConnectionState" where
  "getState m = state m"

definition isConnected :: "manager \<Rightarrow> bool" where
  "isConnected m = (state m = CONNECTED)"

definition setState :: "DirectConnectionState \<Rightarrow> manager \<Rightarrow> manager" where
  "setState newState m =
     (if state m \<noteq> newState
      then m\<lparr>state := newState, onStateChange := onStateChange m @ [newState]\<rparr>
      else m)"

text \<open>\<^verbatim>\<open>dataChannel && dataChannel.readyState === 'open'\<close>\<close>

definition channelOpen :: "manager \<Rightarrow> bool" where
  "channelOpen m =
     (case dataChannel m of
        None \<Rightarrow> False
      | Some ch \<Rightarrow> (case channels m ch of None \<Rightarrow> False | Some c \<Rightarrow> readyState c = ChOpen))"

subsection \<open>Handlers\<close>

text \<open>
  The handlers read the variable \<open>pc\<close>, not the object that fired: with \<open>pc\<close> null they
  throw on the first read, and an exception in a handler changes nothing.
\<close>

definition onicecandidate :: "ice_candidate option \<Rightarrow> manager \<Rightarrow> manager" where
  "onicecandidate c m =
     (case c of None \<Rightarrow> m | Some x \<Rightarrow> m\<lparr>localCandidates := localCandidates m @ [x]\<rparr>)"

definition oniceconnectionstatechange :: "manager \<Rightarrow> manager" where
  "oniceconnectionstatechange m =
     (case pc m of
        None \<Rightarrow> m
      | Some i \<Rightarrow>
          (case connections m i of
             None \<Rightarrow> m
           | Some p \<Rightarrow>
               if iceConnectionState p = IceConnected \<or> iceConnectionState p = IceCompleted then
                 (if channelOpen m then setState CONNECTED m else m)
               else if iceConnectionState p = IceFailed then
                 (let m1 = setState FAILED m
                  in m1\<lparr>onError := onError m1 @ [Error (lit ''ICE connection failed'')]\<rparr>)
               else if iceConnectionState p = IceDisconnected then setState DISCONNECTED m
               else m))"

definition onconnectionstatechange :: "manager \<Rightarrow> manager" where
  "onconnectionstatechange m =
     (case pc m of
        None \<Rightarrow> m
      | Some i \<Rightarrow>
          (case connections m i of
             None \<Rightarrow> m
           | Some p \<Rightarrow>
               if connectionState p = PcConnected then
                 (if channelOpen m then setState CONNECTED m else m)
               else if connectionState p = PcFailed then
                 (let m1 = setState FAILED m
                  in m1\<lparr>onError := onError m1 @ [Error (lit ''Connection failed'')]\<rparr>)
               else m))"

text \<open>
  \<^verbatim>\<open>setupDataChannel(channel)\<close>: the channel becomes the current one, an open channel
  sets the state at once, and the four handlers go onto the channel (a channel of
  \<open>channels\<close> has them).
\<close>

definition setupDataChannel :: "nat \<Rightarrow> manager \<Rightarrow> manager" where
  "setupDataChannel channel m =
     (let m1 = m\<lparr>dataChannel := Some channel\<rparr>
      in if channelOpen m1 then setState CONNECTED m1 else m1)"

definition onopen :: "manager \<Rightarrow> manager" where
  "onopen m = setState CONNECTED m"

definition onclose :: "manager \<Rightarrow> manager" where
  "onclose m = setState DISCONNECTED m"

definition onmessage :: "jsstring \<Rightarrow> manager \<Rightarrow> manager" where
  "onmessage data m =
     (case JSON_parse data of
        Inr message \<Rightarrow> m\<lparr>onMessage := onMessage m @ [Inr message]\<rparr>
      | Inl e \<Rightarrow> m\<lparr>onMessage := onMessage m @ [Inl data]\<rparr>)"

definition onerror :: "js_error \<Rightarrow> manager \<Rightarrow> manager" where
  "onerror error m = m\<lparr>onError := onError m @ [error]\<rparr>"

text \<open>
  \<^verbatim>\<open>createPeerConnection()\<close>: a new engine handle with the manager's handlers on it; the
  constructor is taken to succeed.
\<close>

definition newPeerConnection :: rtc_peer_connection where
  "newPeerConnection =
     \<lparr>iceConnectionState = IceNew, connectionState = PcNew, iceGatheringState = GatheringNew,
      localDescription = None, remoteDescription = None, remoteCandidates = [],
      onicegatheringstatechange = None, closed = False\<rparr>"

definition createPeerConnection :: "manager \<Rightarrow> manager" where
  "createPeerConnection m =
     m\<lparr>pc := Some (nextId m),
       connections := (connections m)(nextId m \<mapsto> newPeerConnection),
       localCandidates := [],
       nextId := Suc (nextId m)\<rparr>"

subsection \<open>Waiting for candidates\<close>

definition clearTimeout :: "nat option \<Rightarrow> manager \<Rightarrow> manager" where
  "clearTimeout t m = m\<lparr>timers := filter (\<lambda>(i, pr). Some i \<noteq> t) (timers m)\<rparr>"

definition resolve :: "nat \<Rightarrow> jsstring \<Rightarrow> manager \<Rightarrow> manager" where
  "resolve pr v m =
     (if promises m pr = Some Pending then m\<lparr>promises := (promises m)(pr \<mapsto> Resolved v)\<rparr> else m)"

definition reject :: "nat \<Rightarrow> js_error \<Rightarrow> manager \<Rightarrow> manager" where
  "reject pr e m =
     (if promises m pr = Some Pending then m\<lparr>promises := (promises m)(pr \<mapsto> Rejected e)\<rparr> else m)"

text \<open>\<^verbatim>\<open>compressSignaling(pc.localDescription, localCandidates)\<close>\<close>

definition compressLocal :: "platform \<Rightarrow> manager \<Rightarrow> js_error + jsstring" where
  "compressLocal pf m =
     (case pc m of
        None \<Rightarrow> Inl TypeError
      | Some i \<Rightarrow>
          (case connections m i of
             None \<Rightarrow> Inl TypeError
           | Some p \<Rightarrow>
               (case localDescription p of
                  None \<Rightarrow> Inl TypeError
                | Some d \<Rightarrow> compressSignaling pf d (map Some (localCandidates m)))))"

text \<open>
  \<^verbatim>\<open>checkCandidates\<close> of the promise \<open>pr\<close>: the new state and what it threw, if it did.
\<close>

definition checkCandidates :: "platform \<Rightarrow> nat \<Rightarrow> manager \<Rightarrow> manager \<times> js_error option" where
  "checkCandidates pf pr m =
     (case pc m of
        None \<Rightarrow> (m, Some TypeError)
      | Some i \<Rightarrow>
          (case connections m i of
             None \<Rightarrow> (m, Some TypeError)
           | Some p \<Rightarrow>
               if iceGatheringState p = GatheringComplete \<or> 3 \<le> length (localCandidates m) then
                 (let m1 = clearTimeout (iceCandidateTimeout m) m
                  in case compressLocal pf m1 of
                       Inl e \<Rightarrow> (m1, Some e)
                     | Inr compressed \<Rightarrow> (resolve pr compressed m1, None))
               else (m, None)))"

text \<open>The callback given to \<^verbatim>\<open>setTimeout\<close>; what it throws is lost.\<close>

definition timeoutFallback :: "platform \<Rightarrow> nat \<Rightarrow> manager \<Rightarrow> manager" where
  "timeoutFallback pf pr m =
     (case compressLocal pf m of Inl e \<Rightarrow> m | Inr compressed \<Rightarrow> resolve pr compressed m)"

text \<open>
  The executor of the promise both \<^verbatim>\<open>createOffer\<close> and \<^verbatim>\<open>createAnswer\<close> return:
  install \<^verbatim>\<open>checkCandidates\<close>, start the timer of 3000 ms, check at once. What the
  executor throws rejects the promise.
\<close>

definition waitForCandidates :: "platform \<Rightarrow> nat \<Rightarrow> manager \<Rightarrow> manager" where
  "waitForCandidates pf pr m =
     (case pc m of
        None \<Rightarrow> reject pr TypeError m
      | Some i \<Rightarrow>
          (case connections m i of
             None \<Rightarrow> reject pr TypeError m
           | Some p \<Rightarrow>
               (let m1 = m\<lparr>connections := (connections m)(i \<mapsto> p\<lparr>onicegatheringstatechange := Some pr\<rparr>)\<rparr>;
                    m2 = m1\<lparr>iceCandidateTimeout := Some (nextId m1),
                            timers := timers m1 @ [(nextId m1, pr)],
                            nextId := Suc (nextId m1)\<rparr>
                in case checkCandidates pf pr m2 of
                     (m3, None) \<Rightarrow> m3
                   | (m3, Some e) \<Rightarrow> reject pr e m3)))"

subsection \<open>The programmatic surface\<close>

definition newChannel :: "ready_state \<Rightarrow> rtc_data_channel" where
  "newChannel r = \<lparr>readyState = r, sent = [], closeCalled = False\<rparr>"

definition updateConnection ::
  "nat \<Rightarrow> (rtc_peer_connection \<Rightarrow> rtc_peer_connection) \<Rightarrow> manager \<Rightarrow> manager" where
  "updateConnection i f m =
     (case connections m i of
        None \<Rightarrow> m
      | Some p \<Rightarrow> m\<lparr>connections := (connections m)(i \<mapsto> f p)\<rparr>)"

definition updateChannel ::
  "nat \<Rightarrow> (rtc_data_channel \<Rightarrow> rtc_data_channel) \<Rightarrow> manager \<Rightarrow> manager" where
  "updateChannel ch f m =
     (case channels m ch of
        None \<Rightarrow> m
      | Some c \<Rightarrow> m\<lparr>channels := (channels m)(ch \<mapsto> f c)\<rparr>)"

text \<open>
  \<^verbatim>\<open>createOffer()\<close> is an \<^verbatim>\<open>async\<close> function: it runs up to
  \<^verbatim>\<open>await pc.createOffer()\<close>, goes on when the engine has produced the offer, and again
  when \<^verbatim>\<open>setLocalDescription\<close> has settled; events may be delivered in between. The
  three parts are \<open>createOffer_begin\<close> (the engine creates the channel in ready state
  \<open>r\<close>; the result carries the promise the call returns), \<open>createOffer_setLocal\<close> and
  \<open>createOffer_wait\<close>; \<open>createOffer\<close> is the call with nothing delivered in between.
\<close>

definition createOffer_begin :: "ready_state \<Rightarrow> manager \<Rightarrow> nat \<times> manager" where
  "createOffer_begin r m =
     (let m1 = createPeerConnection m;
          channel = nextId m1;
          m2 = m1\<lparr>channels := (channels m1)(channel \<mapsto> newChannel r), nextId := Suc channel\<rparr>;
          m3 = setupDataChannel channel m2;
          pr = nextId m3
      in (pr, m3\<lparr>promises := (promises m3)(pr \<mapsto> Pending), nextId := Suc pr\<rparr>))"

definition setLocalDescription :: "description \<Rightarrow> nat \<Rightarrow> manager \<Rightarrow> manager" where
  "setLocalDescription d pr m =
     (case pc m of
        None \<Rightarrow> reject pr TypeError m
      | Some i \<Rightarrow> updateConnection i (\<lambda>p. p\<lparr>localDescription := Some d\<rparr>) m)"

definition createOffer_setLocal :: "description \<Rightarrow> nat \<Rightarrow> manager \<Rightarrow> manager" where
  "createOffer_setLocal offer pr m = setLocalDescription offer pr m"

definition createOffer_wait :: "platform \<Rightarrow> nat \<Rightarrow> manager \<Rightarrow> manager" where
  "createOffer_wait pf pr m =
     (if promises m pr = Some Pending then waitForCandidates pf pr (setState OFFERING m) else m)"

definition createOffer :: "platform \<Rightarrow> ready_state \<Rightarrow> description \<Rightarrow> manager \<Rightarrow> nat \<times> manager" where
  "createOffer pf r offer m =
     (case createOffer_begin r m of
        (pr, m1) \<Rightarrow> (pr, createOffer_wait pf pr (createOffer_setLocal offer pr m1)))"

text \<open>
  Handing a decompressed description and its candidates to the engine:
  \<^verbatim>\<open>setRemoteDescription\<close>, then \<^verbatim>\<open>addIceCandidate\<close> for each candidate, whose failure
  is caught and logged. \<open>addable\<close> says which candidates the engine takes.
\<close>

definition addRemote ::
  "(ice_candidate \<Rightarrow> bool) \<Rightarrow> description \<Rightarrow> ice_candidate list \<Rightarrow> manager \<Rightarrow> manager" where
  "addRemote addable d cs m =
     (case pc m of
        None \<Rightarrow> m
      | Some i \<Rightarrow>
          updateConnection i
            (\<lambda>p. p\<lparr>remoteDescription := Some d,
                   remoteCandidates := remoteCandidates p @ filter addable cs\<rparr>) m)"

text \<open>
  \<^verbatim>\<open>createAnswer(compressedOffer)\<close>, in the same three parts. \<open>accepted\<close> says whether
  the engine takes the remote description; if it does not, the call rejects.
\<close>

definition createAnswer_begin ::
  "platform \<Rightarrow> jsstring \<Rightarrow> bool \<Rightarrow> (ice_candidate \<Rightarrow> bool) \<Rightarrow> manager \<Rightarrow> nat \<times> manager" where
  "createAnswer_begin pf compressedOffer accepted addable m =
     (let m1 = setState ANSWERING (createPeerConnection m);
          pr = nextId m1;
          m2 = m1\<lparr>promises := (promises m1)(pr \<mapsto> Pending), nextId := Suc pr\<rparr>
      in case decompressSignaling pf compressedOffer of
           Inl e \<Rightarrow> (pr, reject pr e m2)
         | Inr (d, cs) \<Rightarrow>
             if accepted then (pr, addRemote addable d cs m2) else (pr, reject pr EngineError m2))"

definition createAnswer_setLocal :: "description \<Rightarrow> nat \<Rightarrow> manager \<Rightarrow> manager" where
  "createAnswer_setLocal answer pr m =
     (if promises m pr = Some Pending then setLocalDescription answer pr m else m)"

definition createAnswer_wait :: "platform \<Rightarrow> nat \<Rightarrow> manager \<Rightarrow> manager" where
  "createAnswer_wait pf pr m =
     (if promises m pr = Some Pending then waitForCandidates pf pr (setState CONNECTING m) else m)"

definition createAnswer ::
  "platform \<Rightarrow> jsstring \<Rightarrow> bool \<Rightarrow> (ice_candidate \<Rightarrow> bool) \<Rightarrow> description \<Rightarrow> manager
     \<Rightarrow> nat \<times> manager" where
  "createAnswer pf compressedOffer accepted addable answer m =
     (case createAnswer_begin pf compressedOffer accepted addable m of
        (pr, m1) \<Rightarrow> (pr, createAnswer_wait pf pr (createAnswer_setLocal answer pr m1)))"

text \<open>
  \<^verbatim>\<open>acceptAnswer(compressedAnswer)\<close>: what the call rejects with (\<open>None\<close> when it
  resolves) and the new state.
\<close>

definition acceptAnswer ::
  "platform \<Rightarrow> jsstring \<Rightarrow> bool \<Rightarrow> (ice_candidate \<Rightarrow> bool) \<Rightarrow> manager
     \<Rightarrow> js_error option \<times> manager" where
  "acceptAnswer pf compressedAnswer accepted addable m =
     (if pc m = None then (Some (Error (lit ''No peer connection - call createOffer first'')), m)
      else
        (case decompressSignaling pf compressedAnswer of
           Inl e \<Rightarrow> (Some e, m)
         | Inr (d, cs) \<Rightarrow>
             if accepted then (None, setState CONNECTING (addRemote addable d cs m))
             else (Some EngineError, m)))"

text \<open>
  \<^verbatim>\<open>send(message)\<close>: a message is a string, or a value for which \<^verbatim>\<open>typeof\<close> says
  \<^verbatim>\<open>'object'\<close>.
\<close>

datatype message = Plain jsstring | Structured json

definition send :: "message \<Rightarrow> manager \<Rightarrow> js_error + manager" where
  "send message m =
     (if \<not> channelOpen m then Inl (Error (lit ''Data channel not open''))
      else
        (let data = (case message of Structured v \<Rightarrow> stringify v | Plain s \<Rightarrow> s)
         in Inr (updateChannel (the (dataChannel m)) (\<lambda>c. c\<lparr>sent := sent c @ [data]\<rparr>) m)))"

definition close :: "manager \<Rightarrow> manager" where
  "close m =
     (let m1 = (if iceCandidateTimeout m \<noteq> None then clearTimeout (iceCandidateTimeout m) m else m);
          m2 = (case dataChannel m1 of
                  None \<Rightarrow> m1
                | Some ch \<Rightarrow>
                    (updateChannel ch (\<lambda>c. c\<lparr>closeCalled := True\<rparr>) m1)\<lparr>dataChannel := None\<rparr>);
          m3 = (case pc m2 of
                  None \<Rightarrow> m2
                | Some i \<Rightarrow> (updateConnection i (\<lambda>p. p\<lparr>closed := True\<rparr>) m2)\<lparr>pc := None\<rparr>);
          m4 = m3\<lparr>localCandidates := []\<rparr>
      in setState DISCONNECTED m4)"

subsection \<open>Events of the host\<close>

text \<open>
  What the host may deliver: an event of an engine handle or of a channel (the host
  first changes the object's own state, then calls the handler), or a timer running out.
  An object the manager never attached a handler to delivers nothing.
\<close>

datatype event =
    IceCandidate nat "ice_candidate option"
  | IceConnectionStateChange nat ice_connection_state
  | ConnectionStateChange nat peer_connection_state
  | IceGatheringStateChange nat ice_gathering_state
  | DataChannel nat ready_state
  | Open nat
  | Closed nat
  | Message nat jsstring
  | ChannelError nat js_error
  | Timeout nat

fun fire :: "platform \<Rightarrow> event \<Rightarrow> manager \<Rightarrow> manager" where
  "fire pf (IceCandidate i c) m =
     (case connections m i of None \<Rightarrow> m | Some p \<Rightarrow> onicecandidate c m)"
| "fire pf (IceConnectionStateChange i s) m =
     (case connections m i of
        None \<Rightarrow> m
      | Some p \<Rightarrow> oniceconnectionstatechange (updateConnection i (\<lambda>p. p\<lparr>iceConnectionState := s\<rparr>) m))"
| "fire pf (ConnectionStateChange i s) m =
     (case connections m i of
        None \<Rightarrow> m
      | Some p \<Rightarrow> onconnectionstatechange (updateConnection i (\<lambda>p. p\<lparr>connectionState := s\<rparr>) m))"
| "fire pf (IceGatheringStateChange i g) m =
     (case connections m i of
        None \<Rightarrow> m
      | Some p \<Rightarrow>
          (let m1 = updateConnection i (\<lambda>p. p\<lparr>iceGatheringState := g\<rparr>) m
           in case onicegatheringstatechange p of
                None \<Rightarrow> m1
              | Some pr \<Rightarrow> fst (checkCandidates pf pr m1)))"
| "fire pf (DataChannel i r) m =
     (case connections m i of
        None \<Rightarrow> m
      | Some p \<Rightarrow>
          setupDataChannel (nextId m)
            (m\<lparr>channels := (channels m)(nextId m \<mapsto> newChannel r), nextId := Suc (nextId m)\<rparr>))"
| "fire pf (Open ch) m =
     (case channels m ch of
        None \<Rightarrow> m
      | Some c \<Rightarrow> onopen (updateChannel ch (\<lambda>c. c\<lparr>readyState := ChOpen\<rparr>) m))"
| "fire pf (Closed ch) m =
     (case channels m ch of
        None \<Rightarrow> m
      | Some c \<Rightarrow> onclose (updateChannel ch (\<lambda>c. c\<lparr>readyState := ChClosed\<rparr>) m))"
| "fire pf (Message ch data) m =
     (case channels m ch of None \<Rightarrow> m | Some c \<Rightarrow> onmessage data m)"
| "fire pf (ChannelError ch e) m =
     (case channels m ch of None \<Rightarrow> m | Some c \<Rightarrow> onerror e m)"
| "fire pf (Timeout t) m =
     (case map_of (timers m) t of
        None \<Rightarrow> m
      | Some pr \<Rightarrow> timeoutFallback pf pr (m\<lparr>timers := filter (\<lambda>(i, pr). i \<noteq> t) (timers m)\<rparr>))"

section \<open>A host and a session for the worked examples\<close>

definition examplePlatform :: platform where
  "examplePlatform =
     \<lparr>now = 1700000000000, number_text = (\<lambda>l. l), number_falsy = (\<lambda>l. l = lit ''0''),
      inherited_text = (\<lambda>k. lit ''function () { [native code] }''), rounded = (\<lambda>v. v)\<rparr>"

definition exampleSdp :: jsstring where
  "exampleSdp =
     lit ''a=ice-ufrag:abcd'' @ [13, 10] @ lit ''a=ice-pwd:EFGH'' @ [13, 10]
     @ lit ''a=fingerprint:sha-256 AA:0B'' @ [13, 10]"

definition exampleOffer :: description where
  "exampleOffer = \<lparr>type = lit ''offer'', sdp = exampleSdp\<rparr>"

text \<open>A manager on which \<^verbatim>\<open>createOffer()\<close> has run and waits for candidates.\<close>

definition offering :: manager where
  "offering = snd (createOffer examplePlatform ChConnecting exampleOffer createDirectConnection)"

lemma setState_fields [simp]:
  "pc (setState s m) = pc m" "dataChannel (setState s m) = dataChannel m"
  "localCandidates (setState s m) = localCandidates m" "timers (setState s m) = timers m"
  "channels (setState s m) = channels m" "connections (setState s m) = connections m"
  "iceCandidateTimeout (setState s m) = iceCandidateTimeout m"
  "promises (setState s m) = promises m" "nextId (setState s m) = nextId m"
  "state (setState s m) = s"
  by (simp_all add: setState_def)

lemma offering_eq:
  "offering =
     \<lparr>state = OFFERING, pc = Some 1, dataChannel = Some 2, localCandidates = [],
      iceCandidateTimeout = Some 4, onStateChange = [OFFERING], onMessage = [], onError = [],
      connections = [1 \<mapsto> newPeerConnection\<lparr>localDescription := Some exampleOffer,
                                                onicegatheringstatechange := Some 3\<rparr>],
      channels = [2 \<mapsto> newChannel ChConnecting], timers = [(4, 3)],
      promises = [3 \<mapsto> Pending], nextId = 5\<rparr>"
  by (simp add: offering_def createOffer_def createOffer_begin_def createOffer_setLocal_def
      createOffer_wait_def createPeerConnection_def createDirectConnection_def
      setupDataChannel_def channelOpen_def newChannel_def setLocalDescription_def
      updateConnection_def waitForCandidates_def checkCandidates_def setState_def
      newPeerConnection_def Let_def eval_nat_numeral)

section \<open>Compression rejects a document without its required fields\<close>

text \<open>
  A field is in an SDP text when its prefix stands somewhere in it with a code unit
  after it that is not a line terminator; that is when the module's regular expression
  matches.
\<close>

definition fieldAt :: "jsstring \<Rightarrow> jsstring \<Rightarrow> bool" where
  "fieldAt pre s =
     (take (length pre) s = pre \<and> length pre < length s \<and> \<not> isLineTerminator (s ! length pre))"

definition hasField :: "jsstring \<Rightarrow> jsstring \<Rightarrow> bool" where
  "hasField pre s = (\<exists>i \<le> length s. fieldAt pre (drop i s))"

lemma takeWhile_nonempty: "takeWhile P xs \<noteq> [] \<longleftrightarrow> xs \<noteq> [] \<and> P (hd xs)"
  by (cases xs) auto

lemma matchField_head:
  "(take (length pre) s = pre \<and> takeWhile (\<lambda>x. \<not> isLineTerminator x) (drop (length pre) s) \<noteq> [])
     \<longleftrightarrow> fieldAt pre s"
  by (auto simp: fieldAt_def takeWhile_nonempty hd_drop_conv_nth)

lemma hasField_Cons: "hasField pre (c # cs) \<longleftrightarrow> fieldAt pre (c # cs) \<or> hasField pre cs"
proof
  assume "hasField pre (c # cs)"
  then obtain i where i: "i \<le> length (c # cs)" "fieldAt pre (drop i (c # cs))"
    by (auto simp: hasField_def)
  show "fieldAt pre (c # cs) \<or> hasField pre cs"
  proof (cases i)
    case 0
    with i show ?thesis by simp
  next
    case (Suc j)
    with i have "j \<le> length cs" "fieldAt pre (drop j cs)" by simp_all
    then show ?thesis by (auto simp: hasField_def)
  qed
next
  assume "fieldAt pre (c # cs) \<or> hasField pre cs"
  then show "hasField pre (c # cs)"
  proof
    assume "fieldAt pre (c # cs)"
    then have "fieldAt pre (drop 0 (c # cs))" by simp
    then show ?thesis unfolding hasField_def by blast
  next
    assume "hasField pre cs"
    then obtain j where "j \<le> length cs" "fieldAt pre (drop j cs)"
      by (auto simp: hasField_def)
    then have "Suc j \<le> length (c # cs)" "fieldAt pre (drop (Suc j) (c # cs))" by simp_all
    then show ?thesis unfolding hasField_def by blast
  qed
qed

lemma matchField_None_iff: "matchField pre s = None \<longleftrightarrow> \<not> hasField pre s"
proof (induction s)
  case Nil
  show ?case by (simp add: hasField_def fieldAt_def)
next
  case (Cons c cs)
  show ?case
    using Cons.IH matchField_head[of pre "c # cs"]
    by (simp add: hasField_Cons Let_def del: take_Suc_Cons drop_Suc_Cons)
qed

text \<open>
  Claim C4. Whenever one of the three required fields (the \<^verbatim>\<open>ice-ufrag\<close> line, the
  \<^verbatim>\<open>ice-pwd\<close> line, the \<^verbatim>\<open>sha-256\<close> fingerprint line) is absent from the document,
  \<^verbatim>\<open>compressSignaling\<close> throws the error "Could not extract required SDP fields" and
  returns no token, whatever the candidates are.
\<close>

theorem compress_missing_field:
  assumes "\<not> hasField (lit ''a=ice-ufrag:'') (sdp d)
         \<or> \<not> hasField (lit ''a=ice-pwd:'') (sdp d)
         \<or> \<not> hasField (lit ''a=fingerprint:sha-256 '') (sdp d)"
  shows "compressSignaling pf d cs = Inl (Error (lit ''Could not extract required SDP fields''))"
  using assms by (auto simp: compressSignaling_def matchField_None_iff[symmetric])

text \<open>A document that carries its two credentials and no fingerprint.\<close>

definition noFingerprint :: description where
  "noFingerprint =
     \<lparr>type = lit ''offer'',
      sdp = lit ''a=ice-ufrag:abcd'' @ [13, 10] @ lit ''a=ice-pwd:EFGH'' @ [13, 10]\<rparr>"

theorem compress_missing_field_witness:
  "hasField (lit ''a=ice-ufrag:'') (sdp noFingerprint)
   \<and> hasField (lit ''a=ice-pwd:'') (sdp noFingerprint)
   \<and> \<not> hasField (lit ''a=fingerprint:sha-256 '') (sdp noFingerprint)
   \<and> compressSignaling examplePlatform noFingerprint []
       = Inl (Error (lit ''Could not extract required SDP fields''))"
proof -
  have u: "matchField (lit ''a=ice-ufrag:'') (sdp noFingerprint) \<noteq> None"
    by (simp add: lit_def noFingerprint_def isLineTerminator_def)
  have p: "matchField (lit ''a=ice-pwd:'') (sdp noFingerprint) \<noteq> None"
    by (simp add: lit_def noFingerprint_def isLineTerminator_def)
  have f: "matchField (lit ''a=fingerprint:sha-256 '') (sdp noFingerprint) = None"
    by (simp add: lit_def noFingerprint_def)
  from f have absent: "\<not> hasField (lit ''a=fingerprint:sha-256 '') (sdp noFingerprint)"
    by (simp add: matchField_None_iff)
  from u p have present: "hasField (lit ''a=ice-ufrag:'') (sdp noFingerprint)"
    "hasField (lit ''a=ice-pwd:'') (sdp noFingerprint)"
    by (simp_all add: matchField_None_iff)
  from compress_missing_field [of noFingerprint examplePlatform "[]"] absent present
  show ?thesis by blast
qed

section \<open>Accepting an answer without an engine handle\<close>

text \<open>
  Claim C6. On a manager that holds no engine handle (\<open>pc\<close> is null, as on every
  manager on which neither \<^verbatim>\<open>createOffer\<close> nor \<^verbatim>\<open>createAnswer\<close> has run),
  \<^verbatim>\<open>acceptAnswer\<close> rejects with "No peer connection - call createOffer first" for every
  token, and nothing of the manager changes: a manager in state \<open>IDLE\<close> stays there.
\<close>

theorem acceptAnswer_without_offer:
  assumes "pc m = None"
  shows "fst (acceptAnswer pf compressedAnswer accepted addable m)
           = Some (Error (lit ''No peer connection - call createOffer first''))
       \<and> snd (acceptAnswer pf compressedAnswer accepted addable m) = m"
  using assms by (simp add: acceptAnswer_def)

theorem acceptAnswer_without_offer_witness:
  "pc createDirectConnection = None \<and> getState createDirectConnection = IDLE
   \<and> fst (acceptAnswer examplePlatform (lit ''someAnswer'') True (\<lambda>c. True) createDirectConnection)
       = Some (Error (lit ''No peer connection - call createOffer first''))
   \<and> getState (snd (acceptAnswer examplePlatform (lit ''someAnswer'') True (\<lambda>c. True)
         createDirectConnection)) = IDLE"
proof -
  have none: "pc createDirectConnection = None"
    by (simp add: createDirectConnection_def)
  have idle: "getState createDirectConnection = IDLE"
    by (simp add: createDirectConnection_def getState_def)
  from acceptAnswer_without_offer [OF none, of examplePlatform "lit ''someAnswer''" True "\<lambda>c. True"]
    none idle
  show ?thesis by simp
qed

section \<open>Closing\<close>

text \<open>
  Claim C7. From every state of a manager, \<^verbatim>\<open>close()\<close> (which has no way to fail) ends
  in \<open>DISCONNECTED\<close> with the channel and the engine handle released (\<^verbatim>\<open>close()\<close>
  called on each, the reference set to null), the accumulated candidates cleared and the
  timer the manager holds no longer pending; a second \<^verbatim>\<open>close()\<close> changes nothing.
\<close>

theorem close_idempotent:
  "getState (close m) = DISCONNECTED \<and> pc (close m) = None \<and> dataChannel (close m) = None
   \<and> localCandidates (close m) = []
   \<and> (\<forall>t pr. iceCandidateTimeout m = Some t \<longrightarrow> (t, pr) \<notin> set (timers (close m)))
   \<and> (\<forall>ch c. dataChannel m = Some ch \<and> channels m ch = Some c
        \<longrightarrow> channels (close m) ch = Some (c\<lparr>closeCalled := True\<rparr>))
   \<and> (\<forall>i p. pc m = Some i \<and> connections m i = Some p
        \<longrightarrow> connections (close m) i = Some (p\<lparr>closed := True\<rparr>))
   \<and> close (close m) = close m"
proof -
  have st: "getState (close m) = DISCONNECTED"
    by (simp add: close_def getState_def Let_def)
  have refs: "pc (close m) = None" "dataChannel (close m) = None" "localCandidates (close m) = []"
    by (auto simp: close_def Let_def clearTimeout_def updateChannel_def updateConnection_def
        split: option.splits)
  have tm: "iceCandidateTimeout m = Some t \<Longrightarrow> (t, pr) \<notin> set (timers (close m))" for t pr
    by (auto simp: close_def Let_def clearTimeout_def updateChannel_def updateConnection_def
        split: option.splits)
  have ch: "dataChannel m = Some ch \<Longrightarrow> channels m ch = Some c
      \<Longrightarrow> channels (close m) ch = Some (c\<lparr>closeCalled := True\<rparr>)" for ch c
    by (auto simp: close_def Let_def clearTimeout_def updateChannel_def updateConnection_def
        split: option.splits)
  have cn: "pc m = Some i \<Longrightarrow> connections m i = Some p
      \<Longrightarrow> connections (close m) i = Some (p\<lparr>closed := True\<rparr>)" for i p
    by (auto simp: close_def Let_def clearTimeout_def updateChannel_def updateConnection_def
        split: option.splits)
  have tmo: "iceCandidateTimeout (close m) = iceCandidateTimeout m"
    by (auto simp: close_def Let_def clearTimeout_def updateChannel_def updateConnection_def
        split: option.splits)
  have tms: "timers (close m) = filter (\<lambda>(i, pr). Some i \<noteq> iceCandidateTimeout m) (timers m)"
    by (auto simp: close_def Let_def clearTimeout_def updateChannel_def updateConnection_def
        split: option.splits intro: filter_True[symmetric])
  have again: "close (close m) = close m"
  proof -
    let ?c = "close m"
    have "close ?c =
      setState DISCONNECTED
        ((if iceCandidateTimeout ?c \<noteq> None then clearTimeout (iceCandidateTimeout ?c) ?c else ?c)
           \<lparr>localCandidates := []\<rparr>)"
      by (subst close_def) (simp add: Let_def refs clearTimeout_def)
    also have "(if iceCandidateTimeout ?c \<noteq> None then clearTimeout (iceCandidateTimeout ?c) ?c else ?c) = ?c"
      by (simp add: clearTimeout_def tmo tms split_def)
    also have "?c\<lparr>localCandidates := []\<rparr> = ?c"
      using refs(3) by simp
    also have "setState DISCONNECTED ?c = ?c"
      using st by (simp add: setState_def getState_def)
    finally show ?thesis .
  qed
  from st refs tm ch cn again show ?thesis by blast
qed

theorem close_idempotent_witness:
  "iceCandidateTimeout offering = Some 4 \<and> (4, 3) \<in> set (timers offering)
   \<and> (4, 3) \<notin> set (timers (close offering))
   \<and> dataChannel offering = Some 2 \<and> channels offering 2 = Some (newChannel ChConnecting)
   \<and> channels (close offering) 2 = Some ((newChannel ChConnecting)\<lparr>closeCalled := True\<rparr>)
   \<and> pc offering = Some 1
   \<and> getState offering = OFFERING \<and> getState (close offering) = DISCONNECTED
   \<and> getState (close (close offering)) = DISCONNECTED"
  using close_idempotent [of offering] by (simp add: offering_eq getState_def)

section \<open>When the state becomes \<open>CONNECTED\<close>\<close>

text \<open>
  Everything that can happen to a manager: a part of a call of its surface, or an event
  delivered by the host.
\<close>

datatype call =
    CreateOfferBegin ready_state
  | CreateOfferSetLocal description nat
  | CreateOfferWait nat
  | CreateAnswerBegin jsstring bool "ice_candidate \<Rightarrow> bool"
  | CreateAnswerSetLocal description nat
  | CreateAnswerWait nat
  | AcceptAnswer jsstring bool "ice_candidate \<Rightarrow> bool"
  | Send message
  | Close
  | Deliver event

fun perform :: "platform \<Rightarrow> call \<Rightarrow> manager \<Rightarrow> manager" where
  "perform pf (CreateOfferBegin r) m = snd (createOffer_begin r m)"
| "perform pf (CreateOfferSetLocal offer pr) m = createOffer_setLocal offer pr m"
| "perform pf (CreateOfferWait pr) m = createOffer_wait pf pr m"
| "perform pf (CreateAnswerBegin compressedOffer accepted addable) m =
     snd (createAnswer_begin pf compressedOffer accepted addable m)"
| "perform pf (CreateAnswerSetLocal answer pr) m = createAnswer_setLocal answer pr m"
| "perform pf (CreateAnswerWait pr) m = createAnswer_wait pf pr m"
| "perform pf (AcceptAnswer compressedAnswer accepted addable) m =
     snd (acceptAnswer pf compressedAnswer accepted addable m)"
| "perform pf (Send message) m = (case send message m of Inl e \<Rightarrow> m | Inr m' \<Rightarrow> m')"
| "perform pf Close m = close m"
| "perform pf (Deliver e) m = fire pf e m"

text \<open>
  The engine reports its path usable: the current handle's \<^verbatim>\<open>iceConnectionState\<close> is
  \<^verbatim>\<open>connected\<close> or \<^verbatim>\<open>completed\<close>, or its \<^verbatim>\<open>connectionState\<close> is \<^verbatim>\<open>connected\<close>.
\<close>

definition engineConnected :: "manager \<Rightarrow> bool" where
  "engineConnected m =
     (case pc m of
        None \<Rightarrow> False
      | Some i \<Rightarrow>
          (case connections m i of
             None \<Rightarrow> False
           | Some p \<Rightarrow>
               iceConnectionState p = IceConnected \<or> iceConnectionState p = IceCompleted
               \<or> connectionState p = PcConnected))"

lemma state_resolve [simp]: "state (resolve pr v m) = state m"
  by (simp add: resolve_def)

lemma state_reject [simp]: "state (reject pr e m) = state m"
  by (simp add: reject_def)

lemma state_clearTimeout [simp]: "state (clearTimeout t m) = state m"
  by (simp add: clearTimeout_def)

lemma state_updateConnection [simp]: "state (updateConnection i f m) = state m"
  by (simp add: updateConnection_def split: option.splits)

lemma state_updateChannel [simp]: "state (updateChannel i f m) = state m"
  by (simp add: updateChannel_def split: option.splits)

lemma state_checkCandidates [simp]: "state (fst (checkCandidates pf pr m)) = state m"
  by (simp add: checkCandidates_def Let_def split: option.splits sum.splits)

lemma state_waitForCandidates [simp]: "state (waitForCandidates pf pr m) = state m"
proof -
  have "state (fst (checkCandidates pf pr x)) = state x" for x by simp
  then have aux: "checkCandidates pf pr x = (y, e) \<Longrightarrow> state y = state x" for x y e
    by (metis fst_conv)
  show ?thesis
    by (auto simp: waitForCandidates_def Let_def split: option.splits prod.splits dest!: aux)
qed

lemma state_timeoutFallback [simp]: "state (timeoutFallback pf pr m) = state m"
  by (simp add: timeoutFallback_def split: sum.splits)

lemma state_addRemote [simp]: "state (addRemote a d cs m) = state m"
  by (simp add: addRemote_def split: option.splits)

lemma state_setLocalDescription [simp]: "state (setLocalDescription d pr m) = state m"
  by (simp add: setLocalDescription_def split: option.splits)

lemma setupDataChannel_connected:
  "state (setupDataChannel ch m) = CONNECTED \<Longrightarrow> state m \<noteq> CONNECTED
     \<Longrightarrow> \<exists>c. channels m ch = Some c \<and> readyState c = ChOpen"
  by (auto simp: setupDataChannel_def channelOpen_def Let_def setState_def
      split: if_splits option.splits)

lemma channelOpen_setState [simp]: "channelOpen (setState s m) = channelOpen m"
  by (simp add: channelOpen_def split: option.splits)

lemma engineConnected_setState [simp]: "engineConnected (setState s m) = engineConnected m"
  by (simp add: engineConnected_def split: option.splits)

lemma state_createOffer_wait: "state m \<noteq> CONNECTED \<Longrightarrow> state (createOffer_wait pf pr m) \<noteq> CONNECTED"
  by (simp add: createOffer_wait_def)

lemma state_createAnswer_wait: "state m \<noteq> CONNECTED \<Longrightarrow> state (createAnswer_wait pf pr m) \<noteq> CONNECTED"
  by (simp add: createAnswer_wait_def)

lemma state_createAnswer_begin:
  "state (snd (createAnswer_begin pf tok accepted addable m)) = ANSWERING"
proof -
  let ?m1 = "setState ANSWERING (createPeerConnection m)"
  let ?m2 = "?m1\<lparr>promises := (promises ?m1)(nextId ?m1 \<mapsto> Pending), nextId := Suc (nextId ?m1)\<rparr>"
  have st: "state ?m2 = ANSWERING" by simp
  show ?thesis
  proof (cases "decompressSignaling pf tok")
    case (Inl e)
    then show ?thesis by (simp add: createAnswer_begin_def Let_def)
  next
    case (Inr r)
    then show ?thesis by (cases r) (simp add: createAnswer_begin_def Let_def)
  qed
qed

lemma state_acceptAnswer:
  "state m \<noteq> CONNECTED \<Longrightarrow> state (snd (acceptAnswer pf tok accepted addable m)) \<noteq> CONNECTED"
proof (cases "decompressSignaling pf tok")
  case (Inl e)
  then show "state m \<noteq> CONNECTED \<Longrightarrow> ?thesis" by (simp add: acceptAnswer_def)
next
  case (Inr r)
  then show "state m \<noteq> CONNECTED \<Longrightarrow> ?thesis" by (cases r) (simp add: acceptAnswer_def)
qed

lemma state_send: "send msg m = Inr m' \<Longrightarrow> state m' = state m"
  by (auto simp: send_def Let_def split: if_splits)

lemma state_close: "state (close m) = DISCONNECTED"
  by (simp add: close_def Let_def)

lemma api_not_connected:
  assumes "state m \<noteq> CONNECTED"
  shows "state (createOffer_setLocal offer pr m) \<noteq> CONNECTED"
    and "state (createOffer_wait pf pr m) \<noteq> CONNECTED"
    and "state (snd (createAnswer_begin pf tok accepted addable m)) \<noteq> CONNECTED"
    and "state (createAnswer_setLocal answer pr m) \<noteq> CONNECTED"
    and "state (createAnswer_wait pf pr m) \<noteq> CONNECTED"
    and "state (snd (acceptAnswer pf tok accepted addable m)) \<noteq> CONNECTED"
    and "state (case send msg m of Inl e \<Rightarrow> m | Inr m' \<Rightarrow> m') \<noteq> CONNECTED"
    and "state (close m) \<noteq> CONNECTED"
proof -
  show "state (createOffer_setLocal offer pr m) \<noteq> CONNECTED"
    using assms by (simp add: createOffer_setLocal_def)
  show "state (createOffer_wait pf pr m) \<noteq> CONNECTED"
    using assms by (rule state_createOffer_wait)
  show "state (snd (createAnswer_begin pf tok accepted addable m)) \<noteq> CONNECTED"
    by (simp add: state_createAnswer_begin)
  show "state (createAnswer_setLocal answer pr m) \<noteq> CONNECTED"
    using assms by (simp add: createAnswer_setLocal_def)
  show "state (createAnswer_wait pf pr m) \<noteq> CONNECTED"
    using assms by (rule state_createAnswer_wait)
  show "state (snd (acceptAnswer pf tok accepted addable m)) \<noteq> CONNECTED"
    using assms by (rule state_acceptAnswer)
  show "state (case send msg m of Inl e \<Rightarrow> m | Inr m' \<Rightarrow> m') \<noteq> CONNECTED"
    using assms by (cases "send msg m") (simp_all add: state_send)
  show "state (close m) \<noteq> CONNECTED"
    by (simp add: state_close)
qed

lemma oniceconnectionstatechange_connected:
  assumes "state (oniceconnectionstatechange m) = CONNECTED" "state m \<noteq> CONNECTED"
  shows "channelOpen (oniceconnectionstatechange m) \<and> engineConnected (oniceconnectionstatechange m)"
proof (cases "pc m")
  case None
  with assms show ?thesis by (simp add: oniceconnectionstatechange_def)
next
  case (Some i)
  show ?thesis
  proof (cases "connections m i")
    case None
    with Some assms show ?thesis by (simp add: oniceconnectionstatechange_def)
  next
    case p: (Some p)
    have eq: "oniceconnectionstatechange m =
        (if iceConnectionState p = IceConnected \<or> iceConnectionState p = IceCompleted then
           (if channelOpen m then setState CONNECTED m else m)
         else if iceConnectionState p = IceFailed then
           (let m1 = setState FAILED m
            in m1\<lparr>onError := onError m1 @ [Error (lit ''ICE connection failed'')]\<rparr>)
         else if iceConnectionState p = IceDisconnected then setState DISCONNECTED m
         else m)"
      using Some p by (simp add: oniceconnectionstatechange_def)
    have ec: "iceConnectionState p = IceConnected \<or> iceConnectionState p = IceCompleted
        \<Longrightarrow> engineConnected m"
      using Some p by (auto simp: engineConnected_def)
    from assms show ?thesis
      unfolding eq by (auto simp: Let_def ec split: if_splits)
  qed
qed

lemma onconnectionstatechange_connected:
  assumes "state (onconnectionstatechange m) = CONNECTED" "state m \<noteq> CONNECTED"
  shows "channelOpen (onconnectionstatechange m) \<and> engineConnected (onconnectionstatechange m)"
proof (cases "pc m")
  case None
  with assms show ?thesis by (simp add: onconnectionstatechange_def)
next
  case (Some i)
  show ?thesis
  proof (cases "connections m i")
    case None
    with Some assms show ?thesis by (simp add: onconnectionstatechange_def)
  next
    case p: (Some p)
    have eq: "onconnectionstatechange m =
        (if connectionState p = PcConnected then
           (if channelOpen m then setState CONNECTED m else m)
         else if connectionState p = PcFailed then
           (let m1 = setState FAILED m
            in m1\<lparr>onError := onError m1 @ [Error (lit ''Connection failed'')]\<rparr>)
         else m)"
      using Some p by (simp add: onconnectionstatechange_def)
    have ec: "connectionState p = PcConnected \<Longrightarrow> engineConnected m"
      using Some p by (simp add: engineConnected_def)
    from assms show ?thesis
      unfolding eq by (auto simp: Let_def ec split: if_splits)
  qed
qed

lemma createOffer_begin_connected:
  assumes "state (snd (createOffer_begin r m)) = CONNECTED" "state m \<noteq> CONNECTED"
  shows "r = ChOpen"
proof -
  let ?m1 = "createPeerConnection m"
  let ?m2 = "?m1\<lparr>channels := (channels ?m1)(nextId ?m1 \<mapsto> newChannel r), nextId := Suc (nextId ?m1)\<rparr>"
  have "state (setupDataChannel (nextId ?m1) ?m2) = CONNECTED"
    using assms(1) by (simp add: createOffer_begin_def Let_def)
  moreover have "state ?m2 \<noteq> CONNECTED"
    using assms(2) by (simp add: createPeerConnection_def)
  ultimately obtain c where "channels ?m2 (nextId ?m1) = Some c" "readyState c = ChOpen"
    using setupDataChannel_connected by blast
  then show ?thesis by (auto simp: newChannel_def)
qed

lemma fire_connected:
  assumes "state (fire pf e m) = CONNECTED" "state m \<noteq> CONNECTED"
  shows "(\<exists>ch. e = Open ch) \<or> (\<exists>i. e = DataChannel i ChOpen)
       \<or> ((\<exists>i s. e = IceConnectionStateChange i s) \<or> (\<exists>i s. e = ConnectionStateChange i s))
           \<and> channelOpen (fire pf e m) \<and> engineConnected (fire pf e m)"
proof (cases e)
  case (IceCandidate i c)
  have "state (onicecandidate c m) = state m"
    by (simp add: onicecandidate_def split: option.splits)
  with IceCandidate assms show ?thesis by (cases "connections m i") simp_all
next
  case (IceConnectionStateChange i s)
  show ?thesis
  proof (cases "connections m i")
    case None
    with IceConnectionStateChange assms show ?thesis by simp
  next
    case (Some p)
    with IceConnectionStateChange assms
      oniceconnectionstatechange_connected[of "updateConnection i (\<lambda>p. p\<lparr>iceConnectionState := s\<rparr>) m"]
    show ?thesis by simp
  qed
next
  case (ConnectionStateChange i s)
  show ?thesis
  proof (cases "connections m i")
    case None
    with ConnectionStateChange assms show ?thesis by simp
  next
    case (Some p)
    with ConnectionStateChange assms
      onconnectionstatechange_connected[of "updateConnection i (\<lambda>p. p\<lparr>connectionState := s\<rparr>) m"]
    show ?thesis by simp
  qed
next
  case (IceGatheringStateChange i g)
  have "state (fire pf (IceGatheringStateChange i g) m) = state m"
    by (simp add: Let_def split: option.splits)
  with IceGatheringStateChange assms show ?thesis by simp
next
  case (DataChannel i r)
  show ?thesis
  proof (cases "connections m i")
    case None
    with DataChannel assms show ?thesis by simp
  next
    case (Some p)
    let ?m1 = "m\<lparr>channels := (channels m)(nextId m \<mapsto> newChannel r), nextId := Suc (nextId m)\<rparr>"
    from Some DataChannel assms have "state (setupDataChannel (nextId m) ?m1) = CONNECTED"
      "state ?m1 \<noteq> CONNECTED" by simp_all
    then obtain c where "channels ?m1 (nextId m) = Some c" "readyState c = ChOpen"
      using setupDataChannel_connected by blast
    then have "r = ChOpen" by (auto simp: newChannel_def)
    with DataChannel show ?thesis by simp
  qed
next
  case (Open ch)
  then show ?thesis by simp
next
  case (Closed ch)
  have "state (fire pf (Closed ch) m) = state m \<or> state (fire pf (Closed ch) m) = DISCONNECTED"
    by (simp add: onclose_def split: option.splits)
  with Closed assms show ?thesis by auto
next
  case (Message ch d)
  have "state (fire pf (Message ch d) m) = state m"
    by (simp add: onmessage_def split: option.splits sum.splits)
  with Message assms show ?thesis by simp
next
  case (ChannelError ch x)
  have "state (fire pf (ChannelError ch x) m) = state m"
    by (simp add: onerror_def split: option.splits)
  with ChannelError assms show ?thesis by simp
next
  case (Timeout t)
  have "state (fire pf (Timeout t) m) = state m"
    by (simp split: option.splits)
  with Timeout assms show ?thesis by simp
qed

text \<open>
  Claim C2, as amended. A step takes a manager into \<open>CONNECTED\<close> only if it is
  (a) the \<^verbatim>\<open>open\<close> event of a channel, or the attachment of a channel that is already
  open (a \<^verbatim>\<open>datachannel\<close> event, or the channel \<^verbatim>\<open>createOffer\<close> creates), whatever the
  engine says about its path; or (b) an \<^verbatim>\<open>iceconnectionstatechange\<close> or
  \<^verbatim>\<open>connectionstatechange\<close> event at which the current handle reports its path usable
  and the current data channel is open.
\<close>

theorem connected_entered_only:
  assumes "getState m \<noteq> CONNECTED" and "getState (perform pf c m) = CONNECTED"
  shows "(\<exists>ch. c = Deliver (Open ch)) \<or> (\<exists>i. c = Deliver (DataChannel i ChOpen))
       \<or> c = CreateOfferBegin ChOpen
       \<or> ((\<exists>i s. c = Deliver (IceConnectionStateChange i s))
            \<or> (\<exists>i s. c = Deliver (ConnectionStateChange i s)))
           \<and> channelOpen (perform pf c m) \<and> engineConnected (perform pf c m)"
proof (cases c)
  case (Deliver e)
  with assms fire_connected[of pf e m] show ?thesis by (auto simp: getState_def)
next
  case (CreateOfferBegin r)
  with assms createOffer_begin_connected[of r m] show ?thesis by (auto simp: getState_def)
qed (use assms api_not_connected[of m] in \<open>auto simp: getState_def\<close>)


definition exampleCandidate :: ice_candidate where
  "exampleCandidate =
     \<lparr>candidate = lit ''candidate:0 1 udp 2113937151 192.168.1.100 54321 typ host'',
      sdpMid = lit ''0'', sdpMLineIndex = 0\<rparr>"

text \<open>
  The claim as stated fails: after \<^verbatim>\<open>createOffer()\<close>, the channel's \<^verbatim>\<open>open\<close> event alone
  takes the manager to \<open>CONNECTED\<close> while the engine handle still reports
  \<^verbatim>\<open>iceConnectionState\<close> \<^verbatim>\<open>new\<close> and \<^verbatim>\<open>connectionState\<close> \<^verbatim>\<open>new\<close>.
\<close>

lemma offering_open_eq:
  "fire examplePlatform (Open 2) offering =
     offering\<lparr>state := CONNECTED, onStateChange := [OFFERING, CONNECTED],
       channels := [2 \<mapsto> newChannel ChOpen]\<rparr>"
  by (simp add: offering_eq onopen_def updateChannel_def setState_def newChannel_def)

theorem connected_on_open_alone:
  "getState offering = OFFERING
   \<and> getState (fire examplePlatform (Open 2) offering) = CONNECTED
   \<and> pc (fire examplePlatform (Open 2) offering) = Some 1
   \<and> map_option iceConnectionState (connections (fire examplePlatform (Open 2) offering) 1) = Some IceNew
   \<and> map_option connectionState (connections (fire examplePlatform (Open 2) offering) 1) = Some PcNew"
  unfolding offering_open_eq by (simp add: offering_eq getState_def newPeerConnection_def)

text \<open>
  A manager whose channel is open and whose path the engine has reported lost; the
  engine's next \<^verbatim>\<open>connected\<close> report brings it back to \<open>CONNECTED\<close>.
\<close>

definition reconnecting :: manager where
  "reconnecting =
     fire examplePlatform (IceConnectionStateChange 1 IceDisconnected)
       (fire examplePlatform (Open 2) offering)"

lemma reconnecting_eq:
  "reconnecting =
     offering\<lparr>state := DISCONNECTED, onStateChange := [OFFERING, CONNECTED, DISCONNECTED],
       channels := [2 \<mapsto> newChannel ChOpen],
       connections := [1 \<mapsto> newPeerConnection\<lparr>iceConnectionState := IceDisconnected,
          localDescription := Some exampleOffer, onicegatheringstatechange := Some 3\<rparr>]\<rparr>"
  unfolding reconnecting_def offering_open_eq
  by (simp add: offering_eq oniceconnectionstatechange_def updateConnection_def setState_def
      newPeerConnection_def channelOpen_def)

theorem connected_entered_only_witness:
  "getState reconnecting = DISCONNECTED
   \<and> getState (perform examplePlatform (Deliver (IceConnectionStateChange 1 IceConnected)) reconnecting)
       = CONNECTED
   \<and> channelOpen (perform examplePlatform (Deliver (IceConnectionStateChange 1 IceConnected)) reconnecting)
   \<and> engineConnected (perform examplePlatform (Deliver (IceConnectionStateChange 1 IceConnected)) reconnecting)"
proof -
  have a: "getState reconnecting = DISCONNECTED"
    by (simp add: reconnecting_eq getState_def)
  have b: "getState (perform examplePlatform (Deliver (IceConnectionStateChange 1 IceConnected)) reconnecting)
      = CONNECTED"
    by (simp add: reconnecting_eq offering_eq getState_def oniceconnectionstatechange_def
        updateConnection_def setState_def newPeerConnection_def channelOpen_def newChannel_def)
  from a have c: "getState reconnecting \<noteq> CONNECTED" by simp
  from connected_entered_only [OF c b] a b show ?thesis by simp
qed

section \<open>The wait for candidates\<close>

text \<open>Three candidates reported to the waiting manager, and no other event.\<close>

definition threeCandidates :: manager where
  "threeCandidates =
     fire examplePlatform (IceCandidate 1 (Some exampleCandidate))
       (fire examplePlatform (IceCandidate 1 (Some exampleCandidate))
         (fire examplePlatform (IceCandidate 1 (Some exampleCandidate)) offering))"

text \<open>
  Claim C8. \<^verbatim>\<open>checkCandidates\<close> compares the number of candidates with three, but it
  runs only once at the start of the wait and on \<^verbatim>\<open>icegatheringstatechange\<close>;
  \<^verbatim>\<open>onicecandidate\<close> only appends. After \<^verbatim>\<open>createOffer()\<close> has begun to wait with no
  candidate yet, three \<^verbatim>\<open>icecandidate\<close> events leave the promise pending and the timer
  running: the third candidate does not resolve the call.
\<close>

theorem three_candidates_pending:
  "getState offering = OFFERING \<and> promises offering 3 = Some Pending
   \<and> localCandidates threeCandidates = [exampleCandidate, exampleCandidate, exampleCandidate]
   \<and> promises threeCandidates 3 = Some Pending
   \<and> timers threeCandidates = [(4, 3)]"
  by (simp add: threeCandidates_def offering_eq onicecandidate_def getState_def)

section \<open>Tokens that decompression refuses\<close>

lemmas char_classes = isAsciiWhitespace_def b64index_def isDigit_def isWordChar_def
  isLineTerminator_def isWhiteSpace_def

text \<open>The structured record a token is the base64 of, when it is one.\<close>

definition tokenRecord :: "jsstring \<Rightarrow> json option" where
  "tokenRecord compressed =
     (case atob compressed of
        Inl e \<Rightarrow> None
      | Inr text \<Rightarrow> (case JSON_parse text of Inl e \<Rightarrow> None | Inr data \<Rightarrow> Some data))"

lemma atob_error: "atob s = Inl e \<Longrightarrow> e = InvalidCharacterError"
  by (auto simp: atob_def Let_def split: if_splits)

lemma JSON_parse_error: "JSON_parse s = Inl e \<Longrightarrow> e = SyntaxError"
  by (auto simp: JSON_parse_def split: option.splits prod.splits list.splits mode.splits)

lemma atob_undefined: "atob (lit ''undefined'') = Inl InvalidCharacterError"
  by (simp add: atob_def lit_def stripPadding_def char_classes)

lemma decompress_no_fingerprint:
  assumes "atob compressed = Inr text" "JSON_parse text = Inr data"
    "property data (lit ''f'') = None"
  shows "decompressSignaling pf compressed = Inl (if data = JNull then TypeError else InvalidCharacterError)"
proof (cases "data = JNull")
  case True
  with assms show ?thesis by (simp add: decompressSignaling_def getProp_def)
next
  case False
  then obtain t where t: "getProp data (lit ''t'') = Inr t"
    by (cases data) (simp_all add: getProp_def)
  from assms t False show ?thesis
    by (simp add: decompressSignaling_def Let_def toStringOpt_def atob_undefined)
qed

text \<open>
  Claim C5, as amended. \<^verbatim>\<open>decompressSignaling\<close> throws for every token that is not
  valid base64 (\<^verbatim>\<open>atob\<close> throws), for every token whose decoded text is not JSON
  (\<^verbatim>\<open>JSON.parse\<close> throws), and for every token whose record has no fingerprint field
  \<^verbatim>\<open>f\<close> (\<^verbatim>\<open>atob\<close> then gets the text \<^verbatim>\<open>undefined\<close>, or the record is \<^verbatim>\<open>null\<close>).
  The module has no error of its own for this: what is thrown is the platform's
  exception.
\<close>

theorem decompress_rejects:
  assumes "tokenRecord compressed = None
         \<or> (\<exists>data. tokenRecord compressed = Some data \<and> property data (lit ''f'') = None)"
  shows "decompressSignaling pf compressed = Inl InvalidCharacterError
       \<or> decompressSignaling pf compressed = Inl SyntaxError
       \<or> decompressSignaling pf compressed = Inl TypeError"
proof (cases "atob compressed")
  case (Inl e)
  then show ?thesis using atob_error[OF Inl] by (simp add: decompressSignaling_def)
next
  case decoded: (Inr tx)
  show ?thesis
  proof (cases "JSON_parse tx")
    case (Inl e)
    with decoded show ?thesis using JSON_parse_error[OF Inl] by (simp add: decompressSignaling_def)
  next
    case (Inr data)
    with decoded assms have "property data (lit ''f'') = None"
      by (simp add: tokenRecord_def)
    from decompress_no_fingerprint[OF decoded Inr this] show ?thesis by simp
  qed
qed

lemma atob_bad: "atob (lit ''invalid-base64-data!!!'') = Inl InvalidCharacterError"
  by (simp add: atob_def lit_def stripPadding_def char_classes)

lemma atob_tag: "atob (lit ''eyJ0IjoibyJ9'') = Inr [123, 34, 116, 34, 58, 34, 111, 34, 125]"
  by (simp add: atob_def lit_def stripPadding_def char_classes)

lemma parse_tag: "JSON_parse [123, 34, 116, 34, 58, 34, 111, 34, 125] = Inr (JObj [(lit ''t'', JStr (lit ''o''))])"
  by (simp add: JSON_parse_def startsWith_def lit_def)

theorem decompress_rejects_witness:
  "tokenRecord (lit ''invalid-base64-data!!!'') = None
   \<and> decompressSignaling examplePlatform (lit ''invalid-base64-data!!!'') = Inl InvalidCharacterError
   \<and> tokenRecord (lit ''eyJ0IjoibyJ9'') = Some (JObj [(lit ''t'', JStr (lit ''o''))])
   \<and> property (JObj [(lit ''t'', JStr (lit ''o''))]) (lit ''f'') = None
   \<and> decompressSignaling examplePlatform (lit ''eyJ0IjoibyJ9'') = Inl InvalidCharacterError"
proof -
  have a: "tokenRecord (lit ''invalid-base64-data!!!'') = None"
    by (simp add: tokenRecord_def atob_bad)
  have b: "tokenRecord (lit ''eyJ0IjoibyJ9'') = Some (JObj [(lit ''t'', JStr (lit ''o''))])"
    by (simp add: tokenRecord_def atob_tag parse_tag)
  have c: "property (JObj [(lit ''t'', JStr (lit ''o''))]) (lit ''f'') = None"
    by (simp add: property_def getProp_def lit_def)
  have d: "decompressSignaling examplePlatform (lit ''invalid-base64-data!!!'') \<noteq> Inl SyntaxError"
    "decompressSignaling examplePlatform (lit ''invalid-base64-data!!!'') \<noteq> Inl TypeError"
    by (simp_all add: decompressSignaling_def atob_bad)
  have g: "getProp (JObj [(lit ''t'', JStr (lit ''o''))]) (lit ''t'') = Inr (Some (JStr (lit ''o'')))"
    by (simp add: getProp_def)
  have e: "decompressSignaling examplePlatform (lit ''eyJ0IjoibyJ9'') \<noteq> Inl SyntaxError"
    "decompressSignaling examplePlatform (lit ''eyJ0IjoibyJ9'') \<noteq> Inl TypeError"
    unfolding decompressSignaling_def atob_tag
    by (simp_all add: parse_tag g c toStringOpt_def atob_undefined Let_def)
  from decompress_rejects [of "lit ''invalid-base64-data!!!''" examplePlatform]
    decompress_rejects [of "lit ''eyJ0IjoibyJ9''" examplePlatform] a b c d e
  show ?thesis by simp
qed

text \<open>
  The claim as stated fails: the fields \<^verbatim>\<open>t\<close>, \<^verbatim>\<open>u\<close> and \<^verbatim>\<open>p\<close> are never checked.
  The token of the record \<^verbatim>\<open>{"f":"qgs="}\<close>, which has no tag and no credential, is
  decompressed without an error: into an answer whose two credentials are the text
  \<^verbatim>\<open>undefined\<close>.
\<close>

lemma atob_fp: "atob (lit ''eyJmIjoicWdzPSJ9'') = Inr [123, 34, 102, 34, 58, 34, 113, 103, 115, 61, 34, 125]"
  by (simp add: atob_def lit_def stripPadding_def char_classes)

lemma parse_fp: "JSON_parse [123, 34, 102, 34, 58, 34, 113, 103, 115, 61, 34, 125] = Inr (JObj [(lit ''f'', JStr (lit ''qgs=''))])"
  by (simp add: JSON_parse_def startsWith_def lit_def)

lemma atob_qgs: "atob (lit ''qgs='') = Inr [170, 11]"
  by (simp add: atob_def lit_def stripPadding_def char_classes)

lemma hexByte_170: "hexByte 170 = lit ''AA''" "hexByte 11 = lit ''0B''"
  by (simp_all add: hexByte_def toUpperCase_def padStart2_def hexDigitLower_def lit_def)

theorem decompress_accepts_incomplete:
  "tokenRecord (lit ''eyJmIjoicWdzPSJ9'') = Some (JObj [(lit ''f'', JStr (lit ''qgs=''))])
   \<and> decompressSignaling examplePlatform (lit ''eyJmIjoicWdzPSJ9'')
       = Inr (\<lparr>type = lit ''answer'',
               sdp = minimalSdp 1700000000000 (lit ''undefined'') (lit ''undefined'')
                       (lit ''AA:0B'') (lit ''answer'')\<rparr>, [])"
proof -
  have a: "tokenRecord (lit ''eyJmIjoicWdzPSJ9'') = Some (JObj [(lit ''f'', JStr (lit ''qgs=''))])"
    by (simp add: tokenRecord_def atob_fp parse_fp)
  have p: "getProp (JObj [(lit ''f'', JStr (lit ''qgs=''))]) (lit ''t'') = Inr None"
    "property (JObj [(lit ''f'', JStr (lit ''qgs=''))]) (lit ''u'') = None"
    "property (JObj [(lit ''f'', JStr (lit ''qgs=''))]) (lit ''p'') = None"
    "property (JObj [(lit ''f'', JStr (lit ''qgs=''))]) (lit ''c'') = None"
    "property (JObj [(lit ''f'', JStr (lit ''qgs=''))]) (lit ''f'') = Some (JStr (lit ''qgs=''))"
    by (simp_all add: property_def getProp_def lit_def)
  have j: "lit ''AA'' @ 58 # lit ''0B'' = lit ''AA:0B''"
    by (simp add: lit_def)
  have b: "decompressSignaling examplePlatform (lit ''eyJmIjoicWdzPSJ9'')
       = Inr (\<lparr>type = lit ''answer'',
               sdp = minimalSdp 1700000000000 (lit ''undefined'') (lit ''undefined'')
                       (lit ''AA:0B'') (lit ''answer'')\<rparr>, [])"
    unfolding decompressSignaling_def atob_fp
    by (simp add: parse_fp p toStringOpt_def atob_qgs hexByte_170 j falsy_def Let_def
        examplePlatform_def)
  from a b show ?thesis by simp
qed

section \<open>\<^verbatim>\<open>atob\<close> undoes \<^verbatim>\<open>btoa\<close>\<close>

text \<open>The six-bit groups of a byte sequence, before padding.\<close>

fun sextets :: "nat list \<Rightarrow> nat list" where
  "sextets [] = []"
| "sextets [a] = [a div 4, (a mod 4) * 16]"
| "sextets [a, b] = [a div 4, (a mod 4) * 16 + b div 16, (b mod 16) * 4]"
| "sextets (a # b # c # r) =
     [a div 4, (a mod 4) * 16 + b div 16, (b mod 16) * 4 + c div 64, c mod 64] @ sextets r"

definition padLen :: "nat list \<Rightarrow> nat" where
  "padLen bs = (if length bs mod 3 = 1 then 2 else if length bs mod 3 = 2 then 1 else 0)"

lemma b64char_props:
  "i < 64 \<Longrightarrow> b64index (b64char i) = Some i \<and> \<not> isAsciiWhitespace (b64char i) \<and> b64char i \<noteq> 61"
  by (auto simp: b64char_def b64index_def isAsciiWhitespace_def)

lemma padLen_step [simp]: "padLen (a # b # c # r) = padLen r"
  by (simp add: padLen_def)

lemma encodeGroups_sextets: "encodeGroups bs = map b64char (sextets bs) @ replicate (padLen bs) 61"
  by (induction bs rule: encodeGroups.induct) (simp_all add: padLen_def numeral_2_eq_2)

lemma sextets_bound: "\<forall>b \<in> set bs. b < 256 \<Longrightarrow> \<forall>s \<in> set (sextets bs). s < 64"
proof (induction bs rule: sextets.induct)
  case (4 a b c r)
  then have "a < 256" "b < 256" "c < 256" "\<forall>b \<in> set r. b < 256" by simp_all
  with "4.IH" show ?case by auto
qed auto

lemma sextets_length: "(length (sextets bs) + padLen bs) mod 4 = 0 \<and> length (sextets bs) mod 4 \<noteq> 1"
proof (induction bs rule: sextets.induct)
  case (4 a b c r)
  then show ?case by (simp add: mod_Suc)
qed (simp_all add: padLen_def)

lemma decodeGroups_sextets: "\<forall>b \<in> set bs. b < 256 \<Longrightarrow> decodeGroups (sextets bs) = bs"
proof (induction bs rule: sextets.induct)
  case 1
  show ?case by simp
next
  case (2 a)
  then show ?case by simp
next
  case (3 a b)
  then have "b < 256" by simp
  then show ?case by simp
next
  case (4 a b c r)
  then have "b < 256" "c < 256" and r: "\<forall>b \<in> set r. b < 256" by simp_all
  then have "b div 16 < 16" "c div 64 < 4" by simp_all
  then have "((a mod 4) * 16 + b div 16) div 16 = a mod 4" "((a mod 4) * 16 + b div 16) mod 16 = b div 16"
    "((b mod 16) * 4 + c div 64) div 4 = b mod 16" "((b mod 16) * 4 + c div 64) mod 4 = c div 64"
    by simp_all
  with "4.IH"[OF r] show ?case by simp
qed

lemma stripPadding_padded:
  assumes "k \<le> 2" "(length xs + k) mod 4 = 0" "61 \<notin> set xs"
  shows "stripPadding (xs @ replicate k 61) = xs"
proof -
  have nolast: "xs \<noteq> [] \<Longrightarrow> last xs \<noteq> 61"
    using assms(3) last_in_set by fastforce
  from assms(1) consider "k = 0" | "k = 1" | "k = 2" by linarith
  then show ?thesis
  proof cases
    case 1
    with nolast show ?thesis by (auto simp: stripPadding_def)
  next
    case 2
    with assms(2) have ne: "xs \<noteq> []" by auto
    have "stripPadding (xs @ [61]) = xs"
      using ne nolast assms(2) 2 by (simp add: stripPadding_def)
    with 2 show ?thesis by simp
  next
    case 3
    have "stripPadding ((xs @ [61]) @ [61]) = xs"
      using assms(2) 3 unfolding stripPadding_def butlast_snoc last_snoc by simp
    with 3 show ?thesis by (simp add: numeral_2_eq_2)
  qed
qed

text \<open>\<^verbatim>\<open>atob(btoa(s))\<close> is \<open>s\<close> for every string of code units up to 255.\<close>

lemma atob_encodeGroups:
  assumes "\<forall>b \<in> set bs. b < 256"
  shows "atob (encodeGroups bs) = Inr bs"
proof -
  let ?body = "map b64char (sextets bs)"
  from sextets_bound[OF assms] have lt: "\<forall>s \<in> set (sextets bs). s < 64" .
  then have chars: "\<forall>c \<in> set ?body. \<not> isAsciiWhitespace c \<and> c \<noteq> 61 \<and> b64index c \<noteq> None"
    using b64char_props by auto
  have "\<not> isAsciiWhitespace 61" by (simp add: isAsciiWhitespace_def)
  with chars have flt: "filter (\<lambda>c. \<not> isAsciiWhitespace c) (encodeGroups bs) = encodeGroups bs"
    by (auto simp: encodeGroups_sextets filter_id_conv)
  have "padLen bs \<le> 2" by (simp add: padLen_def)
  moreover have "(length ?body + padLen bs) mod 4 = 0" using sextets_length[of bs] by simp
  moreover have "61 \<notin> set ?body" using chars by auto
  ultimately have strip: "stripPadding (encodeGroups bs) = ?body"
    unfolding encodeGroups_sextets by (rule stripPadding_padded)
  have len: "length ?body mod 4 \<noteq> 1" using sextets_length[of bs] by simp
  have idx: "map (\<lambda>c. the (b64index c)) ?body = sextets bs"
    using lt b64char_props by (auto simp: map_idI)
  from chars have ok: "\<not> (\<exists>c \<in> set ?body. b64index c = None)" by auto
  show ?thesis
    unfolding atob_def flt strip Let_def using len ok idx decodeGroups_sextets[OF assms]
    by (simp only: simp_thms if_False)
qed

lemma atob_btoa:
  assumes "\<forall>c \<in> set s. c \<le> 255"
  shows "\<exists>enc. btoa s = Inr enc \<and> atob enc = Inr s"
proof -
  from assms have "\<forall>b \<in> set s. b < 256" by auto
  from atob_encodeGroups[OF this] assms show ?thesis
    by (auto simp: btoa_def)
qed

section \<open>\<^verbatim>\<open>JSON.parse\<close> undoes \<^verbatim>\<open>JSON.stringify\<close>\<close>

lemma hexDigit_value: "d < 16 \<Longrightarrow> digitValue (hexDigitLower d) = Some d"
  by (auto simp: digitValue_def hexDigitLower_def)

lemma hex_decomp:
  assumes "c < 65536"
  shows "((c div 4096 mod 16 * 16 + c div 256 mod 16) * 16 + c div 16 mod 16) * 16 + c mod 16 = (c::nat)"
proof -
  have a: "c div 16 div 16 = c div 256" "c div 256 div 16 = c div 4096"
    by (simp_all add: div_mult2_eq[symmetric])
  have top: "c div 4096 mod 16 = c div 4096" using assms by simp
  have e3: "c div 4096 * 16 + c div 256 mod 16 = c div 256"
    using div_mult_mod_eq[of "c div 256" 16] a by simp
  have e2: "c div 256 * 16 + c div 16 mod 16 = c div 16"
    using div_mult_mod_eq[of "c div 16" 16] a by simp
  have e1: "c div 16 * 16 + c mod 16 = c" by simp
  show ?thesis unfolding top e3 e2 e1 ..
qed

lemma hex4_digits:
  assumes "x1 < 16" "x2 < 16" "x3 < 16" "x4 < 16"
  shows "hex4 [hexDigitLower x1, hexDigitLower x2, hexDigitLower x3, hexDigitLower x4]
           = Some (((x1 * 16 + x2) * 16 + x3) * 16 + x4)"
  using assms by (simp add: hex4_def isRadixDigit_def digitsValue_def hexDigit_value)

lemma hex4_unicodeEscape:
  assumes "c < 65536"
  shows "hex4 [hexDigitLower (c div 4096 mod 16), hexDigitLower (c div 256 mod 16),
               hexDigitLower (c div 16 mod 16), hexDigitLower (c mod 16)] = Some c"
proof -
  have "hex4 [hexDigitLower (c div 4096 mod 16), hexDigitLower (c div 256 mod 16),
               hexDigitLower (c div 16 mod 16), hexDigitLower (c mod 16)]
        = Some (((c div 4096 mod 16 * 16 + c div 256 mod 16) * 16 + c div 16 mod 16) * 16 + c mod 16)"
    by (rule hex4_digits) simp_all
  then show ?thesis unfolding hex_decomp[OF assms] .
qed


lemma lexString_escape:
  assumes "c < 65536" "lexString r = Some (s, r')"
  shows "lexString (unicodeEscape c @ r) = Some (c # s, r')"
  using assms hex4_unicodeEscape[OF assms(1)] by (simp add: unicodeEscape_def)

lemma lexString_plain:
  assumes "\<not> c < 32" "c \<noteq> 34" "c \<noteq> 92" "lexString r = Some (s, r')"
  shows "lexString (c # r) = Some (c # s, r')"
  using assms by simp

lemma lexString_short:
  assumes "unescape e = Some c" "e \<noteq> 117" "lexString r = Some (s, r')"
  shows "lexString (92 # e # r) = Some (c # s, r')"
  using assms by simp

lemma surrogate_plain:
  "isHighSurrogate c \<or> isLowSurrogate c \<Longrightarrow> c < 65536 \<and> \<not> c < 32 \<and> c \<noteq> 34 \<and> c \<noteq> 92"
  by (auto simp: isHighSurrogate_def isLowSurrogate_def)

lemma lexString_quoteChars: "lexString (quoteChars s @ 34 # rest) = Some (s, rest)"
proof (induction "length s" arbitrary: s rule: less_induct)
  case less
  show ?case
  proof (cases s)
    case Nil
    then show ?thesis by simp
  next
    case (Cons c cs)
    have IH: "lexString (quoteChars cs @ 34 # rest) = Some (cs, rest)"
      using less Cons by simp
    consider (esc) "c = 8 \<or> c = 9 \<or> c = 10 \<or> c = 12 \<or> c = 13 \<or> c = 34 \<or> c = 92"
      | (ctl) "\<not> (c = 8 \<or> c = 9 \<or> c = 10 \<or> c = 12 \<or> c = 13 \<or> c = 34 \<or> c = 92)" "c < 32"
      | (hi) "\<not> c < 32" "c \<noteq> 34" "c \<noteq> 92" "isHighSurrogate c"
      | (lo) "\<not> c < 32" "c \<noteq> 34" "c \<noteq> 92" "\<not> isHighSurrogate c" "isLowSurrogate c"
      | (plain) "\<not> c < 32" "c \<noteq> 34" "c \<noteq> 92" "\<not> isHighSurrogate c" "\<not> isLowSurrogate c"
      by linarith
    then show ?thesis
    proof cases
      case esc
      then obtain e where e: "quoteChars (c # cs) = 92 # e # quoteChars cs" "unescape e = Some c" "e \<noteq> 117"
        by (auto simp: unescape_def)
      from lexString_short[OF e(2,3) IH] show ?thesis unfolding Cons e(1) by simp
    next
      case ctl
      then have q: "quoteChars (c # cs) = unicodeEscape c @ quoteChars cs" by simp
      from ctl have "c < 65536" by simp
      from lexString_escape[OF this IH] show ?thesis unfolding Cons q by simp
    next
      case hi
      have lt: "c < 65536" using surrogate_plain hi by simp
      show ?thesis
      proof (cases cs)
        case Nil
        from hi have q: "quoteChars [c] = unicodeEscape c" by simp
        have "lexString (34 # rest) = Some ([], rest)" by simp
        from lexString_escape[OF lt this] show ?thesis unfolding Cons Nil q by simp
      next
        case inner: (Cons d ds)
        show ?thesis
        proof (cases "isLowSurrogate d")
          case True
          with hi have q: "quoteChars (c # d # ds) = c # d # quoteChars ds" by simp
          have IH2: "lexString (quoteChars ds @ 34 # rest) = Some (ds, rest)"
            using less Cons inner by simp
          have dp: "\<not> d < 32" "d \<noteq> 34" "d \<noteq> 92" using surrogate_plain[of d] True by auto
          from lexString_plain[OF hi(1-3) lexString_plain[OF dp IH2]]
          show ?thesis unfolding Cons inner q by simp
        next
          case False
          with hi inner have q: "quoteChars (c # cs) = unicodeEscape c @ quoteChars cs" by simp
          from lexString_escape[OF lt IH] show ?thesis unfolding Cons q by simp
        qed
      qed
    next
      case lo
      then have q: "quoteChars (c # cs) = unicodeEscape c @ quoteChars cs" by simp
      have lt: "c < 65536" using surrogate_plain lo by simp
      from lexString_escape[OF lt IH] show ?thesis unfolding Cons q by simp
    next
      case plain
      then have q: "quoteChars (c # cs) = c # quoteChars cs" by simp
      from lexString_plain[OF plain(1-3) IH] show ?thesis unfolding Cons q by simp
    qed
  qed
qed

text \<open>
  What may follow a value inside a JSON text: nothing, a comma, or a closing bracket or
  brace.
\<close>

definition stop :: "jsstring \<Rightarrow> bool" where
  "stop rest = (rest = [] \<or> hd rest = 44 \<or> hd rest = 93 \<or> hd rest = 125)"

text \<open>A numeric literal of JSON, all of it.\<close>

definition isNumberText :: "jsstring \<Rightarrow> bool" where
  "isNumberText l = (lexNumber l = Some (l, []))"

lemma stop_no_digit: "stop rest \<Longrightarrow> takeWhile isDigit rest = [] \<and> dropWhile isDigit rest = rest"
  by (cases rest) (auto simp: stop_def isDigit_def)

lemma digits_append:
  assumes "stop rest"
  shows "takeWhile isDigit (xs @ rest) = takeWhile isDigit xs
       \<and> dropWhile isDigit (xs @ rest) = dropWhile isDigit xs @ rest"
  using stop_no_digit[OF assms] by (induction xs) simp_all

lemma lexFraction_append:
  assumes "stop rest"
  shows "lexFraction (xs @ rest) = (fst (lexFraction xs), snd (lexFraction xs) @ rest)"
proof (cases xs)
  case Nil
  with assms show ?thesis
    by (cases rest) (auto simp: lexFraction_def stop_def)
next
  case (Cons c r)
  with digits_append[OF assms, of r] show ?thesis
    by (simp add: lexFraction_def)
qed

lemma lexExponent_append:
  assumes "stop rest"
  shows "lexExponent (xs @ rest) = (fst (lexExponent xs), snd (lexExponent xs) @ rest)"
proof (cases xs)
  case Nil
  with assms show ?thesis
    by (cases rest) (auto simp: lexExponent_def stop_def)
next
  case (Cons c r)
  show ?thesis
  proof (cases r)
    case Nil
    with Cons assms stop_no_digit[OF assms] show ?thesis
      by (cases rest) (auto simp: lexExponent_def stop_def Let_def)
  next
    case inner: (Cons d ds)
    with Cons digits_append[OF assms, of ds] digits_append[OF assms, of "d # ds"] show ?thesis
      by (simp add: lexExponent_def Let_def)
  qed
qed

lemma lexNumber_append:
  assumes "lexNumber l = Some (t, r)" "stop rest"
  shows "lexNumber (l @ rest) = Some (t, r @ rest)"
proof -
  define sg where "sg = (if l \<noteq> [] \<and> hd l = 45 then [45::nat] else [])"
  define s1 where "s1 = drop (length sg) l"
  define ip where "ip = (if s1 \<noteq> [] \<and> hd s1 = 48 then [48] else takeWhile isDigit s1)"
  define s2 where "s2 = drop (length ip) s1"
  from assms(1) have ipne: "ip \<noteq> []"
    and res: "t = sg @ ip @ fst (lexFraction s2) @ fst (lexExponent (snd (lexFraction s2)))"
             "r = snd (lexExponent (snd (lexFraction s2)))"
    by (auto simp: lexNumber_def Let_def sg_def s1_def ip_def s2_def split: prod.splits if_splits)
  from ipne have s1ne: "s1 \<noteq> []" by (auto simp: ip_def split: if_splits)
  then have lne: "l \<noteq> []" by (auto simp: s1_def)
  have sglen: "length sg \<le> length l" using lne by (cases l) (auto simp: sg_def)
  have "Suc 0 \<le> length s1" using s1ne by (cases s1) simp_all
  then have iplen: "length ip \<le> length s1"
    using length_takeWhile_le[of isDigit s1] by (simp add: ip_def)
  have sg': "(if l @ rest \<noteq> [] \<and> hd (l @ rest) = 45 then [45::nat] else []) = sg"
    using lne by (simp add: sg_def)
  have s1': "drop (length sg) (l @ rest) = s1 @ rest"
    using sglen by (simp add: s1_def)
  have ip': "(if s1 @ rest \<noteq> [] \<and> hd (s1 @ rest) = 48 then [48] else takeWhile isDigit (s1 @ rest)) = ip"
    using s1ne digits_append[OF assms(2), of s1] by (simp add: ip_def)
  have s2': "drop (length ip) (s1 @ rest) = s2 @ rest"
    using iplen by (simp add: s2_def)
  have fr: "lexFraction (s2 @ rest) = (fst (lexFraction s2), snd (lexFraction s2) @ rest)"
    by (rule lexFraction_append[OF assms(2)])
  have ex: "lexExponent (snd (lexFraction s2) @ rest)
      = (fst (lexExponent (snd (lexFraction s2))), snd (lexExponent (snd (lexFraction s2))) @ rest)"
    by (rule lexExponent_append[OF assms(2)])
  show ?thesis
    unfolding lexNumber_def Let_def sg' s1' ip' s2' fr using ipne res ex by simp
qed

lemma number_head:
  assumes "lexNumber l = Some (t, r)"
  shows "l \<noteq> [] \<and> (hd l = 45 \<or> isDigit (hd l))"
proof -
  define sg where "sg = (if l \<noteq> [] \<and> hd l = 45 then [45::nat] else [])"
  define s1 where "s1 = drop (length sg) l"
  define ip where "ip = (if s1 \<noteq> [] \<and> hd s1 = 48 then [48] else takeWhile isDigit s1)"
  from assms have ipne: "ip \<noteq> []"
    by (auto simp: lexNumber_def Let_def sg_def s1_def ip_def split: prod.splits if_splits)
  then have s1ne: "s1 \<noteq> []" by (auto simp: ip_def split: if_splits)
  then have lne: "l \<noteq> []" by (auto simp: s1_def)
  have "isDigit (hd s1)"
    using ipne s1ne by (cases s1) (auto simp: ip_def isDigit_def split: if_splits)
  then show ?thesis
    using lne s1ne by (cases l) (auto simp: s1_def sg_def split: if_splits)
qed

lemma lex_number:
  assumes "isNumberText l" "stop rest"
  shows "lex (l @ rest) = map_option (Cons (TNumber l)) (lex rest)"
proof -
  from assms(1) have n: "lexNumber l = Some (l, [])" by (simp add: isNumberText_def)
  from number_head[OF n] obtain c cs where l: "l = c # cs" and c: "c = 45 \<or> isDigit c"
    by (cases l) auto
  from lexNumber_append[OF n assms(2)] have a: "lexNumber (c # cs @ rest) = Some (l, rest)"
    by (simp add: l)
  from c have "\<not> startsWith (lit ''true'') (c # cs @ rest)" "\<not> startsWith (lit ''false'') (c # cs @ rest)"
    "\<not> startsWith (lit ''null'') (c # cs @ rest)"
    by (auto simp: startsWith_def lit_def isDigit_def)
  with c a show ?thesis unfolding l
    by (auto simp: isDigit_def)
qed

lemma lex_string: "lex (quote s @ rest) = map_option (Cons (TString s)) (lex rest)"
  by (simp add: quote_def lexString_quoteChars)

lemma lex_keywords:
  "lex (lit ''null'' @ rest) = map_option (Cons TNull) (lex rest)"
  "lex (lit ''true'' @ rest) = map_option (Cons TTrue) (lex rest)"
  "lex (lit ''false'' @ rest) = map_option (Cons TFalse) (lex rest)"
  by (simp_all add: lit_def startsWith_def)

text \<open>The tokens of the text \<^verbatim>\<open>JSON.stringify\<close> writes for a value.\<close>

fun tokens :: "json \<Rightarrow> token list"
  and tokensElements :: "json list \<Rightarrow> token list"
  and tokensMembers :: "(jsstring \<times> json) list \<Rightarrow> token list" where
  "tokens JNull = [TNull]"
| "tokens (JBool b) = [if b then TTrue else TFalse]"
| "tokens (JNum l) = [TNumber l]"
| "tokens (JStr s) = [TString s]"
| "tokens (JArr vs) = TLBracket # tokensElements vs @ [TRBracket]"
| "tokens (JObj ms) = TLBrace # tokensMembers ms @ [TRBrace]"
| "tokensElements [] = []"
| "tokensElements [v] = tokens v"
| "tokensElements (v # w # vs) = tokens v @ TComma # tokensElements (w # vs)"
| "tokensMembers [] = []"
| "tokensMembers [(k, v)] = TString k # TColon # tokens v"
| "tokensMembers ((k, v) # m # ms) = TString k # TColon # tokens v @ TComma # tokensMembers (m # ms)"

text \<open>
  The values \<^verbatim>\<open>JSON.stringify\<close> writes down as they are: every Number in them is
  finite, named by a numeric literal of JSON.
\<close>

fun representable :: "json \<Rightarrow> bool"
  and representableElements :: "json list \<Rightarrow> bool"
  and representableMembers :: "(jsstring \<times> json) list \<Rightarrow> bool" where
  "representable (JNum l) = isNumberText l"
| "representable (JArr vs) = representableElements vs"
| "representable (JObj ms) = representableMembers ms"
| "representable _ = True"
| "representableElements [] = True"
| "representableElements (v # vs) = (representable v \<and> representableElements vs)"
| "representableMembers [] = True"
| "representableMembers ((k, v) # ms) = (representable v \<and> representableMembers ms)"

lemma stop_simps [simp]: "stop []" "stop (44 # r)" "stop (93 # r)" "stop (125 # r)"
  by (simp_all add: stop_def)

lemma lex_punct [simp]:
  "lex (91 # r) = map_option (Cons TLBracket) (lex r)"
  "lex (93 # r) = map_option (Cons TRBracket) (lex r)"
  "lex (123 # r) = map_option (Cons TLBrace) (lex r)"
  "lex (125 # r) = map_option (Cons TRBrace) (lex r)"
  "lex (58 # r) = map_option (Cons TColon) (lex r)"
  "lex (44 # r) = map_option (Cons TComma) (lex r)"
  by simp_all

lemma lex_stringify:
  "representable v \<Longrightarrow> stop rest \<Longrightarrow> lex (stringify v @ rest) = map_option ((@) (tokens v)) (lex rest)"
  "representableElements vs \<Longrightarrow> stop rest
     \<Longrightarrow> lex (stringifyElements vs @ rest) = map_option ((@) (tokensElements vs)) (lex rest)"
  "representableMembers ms \<Longrightarrow> stop rest
     \<Longrightarrow> lex (stringifyMembers ms @ rest) = map_option ((@) (tokensMembers ms)) (lex rest)"
proof (induction v and vs and ms arbitrary: rest and rest and rest
    rule: stringify_stringifyElements_stringifyMembers.induct)
  case 1
  show ?case by (simp add: lex_keywords del: lex.simps)
next
  case (2 b)
  show ?case by (simp add: lex_keywords del: lex.simps)
next
  case (3 l)
  then show ?case by (simp add: lex_number del: lex.simps)
next
  case (4 s)
  show ?case by (simp add: lex_string del: lex.simps)
next
  case (5 vs)
  from 5 have "lex (stringifyElements vs @ 93 # rest) = map_option ((@) (tokensElements vs)) (lex (93 # rest))"
    by simp
  then show ?case by (simp add: option.map_comp o_def del: lex.simps)
next
  case (6 ms)
  from 6 have "lex (stringifyMembers ms @ 125 # rest) = map_option ((@) (tokensMembers ms)) (lex (125 # rest))"
    by simp
  then show ?case by (simp add: option.map_comp o_def del: lex.simps)
next
  case 7
  show ?case by (simp add: option.map_ident del: lex.simps)
next
  case (8 v)
  then show ?case by simp
next
  case (9 v w vs)
  from 9 have a: "lex (stringify v @ 44 # stringifyElements (w # vs) @ rest)
      = map_option ((@) (tokens v)) (lex (44 # stringifyElements (w # vs) @ rest))"
    by simp
  from 9 have b: "lex (stringifyElements (w # vs) @ rest) = map_option ((@) (tokensElements (w # vs))) (lex rest)"
    by simp
  show ?case using a b by (simp add: option.map_comp o_def del: lex.simps)
next
  case 10
  show ?case by (simp add: option.map_ident del: lex.simps)
next
  case (11 k v)
  from 11 have a: "lex (stringify v @ rest) = map_option ((@) (tokens v)) (lex rest)" by simp
  show ?case
    using lex_string[of k "58 # stringify v @ rest"] a
    by (simp add: option.map_comp o_def del: lex.simps)
next
  case (12 k v m ms)
  from 12 have a: "lex (stringify v @ 44 # stringifyMembers (m # ms) @ rest)
      = map_option ((@) (tokens v)) (lex (44 # stringifyMembers (m # ms) @ rest))"
    by simp
  from 12 have b: "lex (stringifyMembers (m # ms) @ rest) = map_option ((@) (tokensMembers (m # ms))) (lex rest)"
    by simp
  show ?case
    using lex_string[of k "58 # stringify v @ 44 # stringifyMembers (m # ms) @ rest"] a b
    by (simp add: option.map_comp o_def del: lex.simps)
qed

lemma tokens_first:
  "\<exists>t ts. tokens v = t # ts \<and> t \<noteq> TRBracket \<and> t \<noteq> TRBrace"
  by (cases v) auto

lemma step_first:
  assumes "t \<noteq> TRBracket"
  shows "step t (fs, WantFirst) = step t (fs, WantValue)"
  using assms by simp

lemma run_tokens:
  "m = WantValue \<or> m = WantFirst
     \<Longrightarrow> run (tokens v @ ts) (fs, m) = (case deliver v fs of None \<Rightarrow> None | Some st \<Rightarrow> run ts st)"
  "vs \<noteq> [] \<Longrightarrow> m = WantValue \<or> m = WantFirst
     \<Longrightarrow> run (tokensElements vs @ ts) (InArray acc # fs, m)
         = run ts (InArray (rev vs @ acc) # fs, WantMore)"
  "ms \<noteq> [] \<Longrightarrow> k = WantKey \<or> k = WantKey0
     \<Longrightarrow> run (tokensMembers ms @ ts) (InObject macc # fs, k)
         = run ts (InObject (rev ms @ macc) # fs, WantMore)"
proof (induction v and vs and ms arbitrary: m ts fs and m ts fs acc and k ts fs macc
    rule: tokens_tokensElements_tokensMembers.induct)
  case 1
  then show ?case by auto
next
  case (2 b)
  then show ?case by auto
next
  case (3 l)
  then show ?case by auto
next
  case (4 s)
  then show ?case by auto
next
  case (5 vs)
  have start: "run (tokens (JArr vs) @ ts) (fs, m)
      = run (tokensElements vs @ TRBracket # ts) (InArray [] # fs, WantFirst)"
    using "5.prems" by auto
  show ?case
  proof (cases "vs = []")
    case True
    with start show ?thesis by simp
  next
    case False
    from "5.IH"[OF False, of WantFirst "TRBracket # ts" "[]" fs] start
    show ?thesis by simp
  qed
next
  case (6 ms)
  have start: "run (tokens (JObj ms) @ ts) (fs, m)
      = run (tokensMembers ms @ TRBrace # ts) (InObject [] # fs, WantKey0)"
    using "6.prems" by auto
  show ?case
  proof (cases "ms = []")
    case True
    with start show ?thesis by simp
  next
    case False
    from "6.IH"[OF False, of WantKey0 "TRBrace # ts" "[]" fs] start
    show ?thesis by simp
  qed
next
  case 7
  then show ?case by simp
next
  case (8 v)
  from "8.IH"[OF "8.prems"(2), of ts "InArray acc # fs"] show ?case by simp
next
  case (9 v w vs)
  have a: "run (tokens v @ TComma # tokensElements (w # vs) @ ts) (InArray acc # fs, m)
      = run (TComma # tokensElements (w # vs) @ ts) (InArray (v # acc) # fs, WantMore)"
    using "9.IH"(1)[OF "9.prems"(2), of "TComma # tokensElements (w # vs) @ ts" "InArray acc # fs"]
    by simp
  have b: "run (tokensElements (w # vs) @ ts) (InArray (v # acc) # fs, WantValue)
      = run ts (InArray (rev (w # vs) @ v # acc) # fs, WantMore)"
    using "9.IH"(2)[of WantValue ts "v # acc" fs] by simp
  show ?case using a b by simp
next
  case 10
  then show ?case by simp
next
  case (11 k' v)
  have "run (tokens v @ ts) (InMember macc k' # fs, WantValue)
      = run ts (InObject ((k', v) # macc) # fs, WantMore)"
    using "11.IH"[of WantValue ts "InMember macc k' # fs"] by simp
  with "11.prems" show ?case by auto
next
  case (12 k' v m' ms)
  have a: "run (tokens v @ TComma # tokensMembers (m' # ms) @ ts) (InMember macc k' # fs, WantValue)
      = run (TComma # tokensMembers (m' # ms) @ ts) (InObject ((k', v) # macc) # fs, WantMore)"
    using "12.IH"(1)[of WantValue "TComma # tokensMembers (m' # ms) @ ts" "InMember macc k' # fs"]
    by simp
  have b: "run (tokensMembers (m' # ms) @ ts) (InObject ((k', v) # macc) # fs, WantKey)
      = run ts (InObject (rev (m' # ms) @ (k', v) # macc) # fs, WantMore)"
    using "12.IH"(2)[of WantKey ts "(k', v) # macc" fs] by simp
  from "12.prems" show ?case using a b by auto
qed

text \<open>\<^verbatim>\<open>JSON.parse(JSON.stringify(v))\<close> gives \<open>v\<close> back.\<close>

lemma parse_stringify: "representable v \<Longrightarrow> JSON_parse (stringify v) = Inr v"
proof -
  assume r: "representable v"
  from lex_stringify(1)[OF r, of "[]"] have l: "lex (stringify v) = Some (tokens v)" by simp
  from run_tokens(1)[of WantValue v "[]" "[]"] have "run (tokens v) ([], WantValue) = Some ([], Finished v)"
    by simp
  with l show ?thesis by (simp add: JSON_parse_def)
qed

section \<open>Sending\<close>

text \<open>The offering manager once its channel has opened.\<close>

definition opened :: manager where
  "opened = fire examplePlatform (Open 2) offering"

definition exampleMessage :: json where
  "exampleMessage =
     JObj [(lit ''text'', JStr (lit ''hi'')), (lit ''version'', JNum (lit ''1'')),
           (lit ''tags'', JArr [JBool True, JNull])]"

text \<open>
  Claim C9. With no data channel, or with one whose \<^verbatim>\<open>readyState\<close> is not \<^verbatim>\<open>open\<close>
  (connecting, closing or closed), \<^verbatim>\<open>send\<close> throws "Data channel not open". With the
  channel open, a string is handed to the channel as it is, and a structured value is
  handed over as its \<^verbatim>\<open>JSON.stringify\<close> text, from which \<^verbatim>\<open>JSON.parse\<close> gives the value
  back.
\<close>

theorem send_behaviour:
  "(dataChannel m = None
      \<or> (\<exists>ch c. dataChannel m = Some ch \<and> channels m ch = Some c \<and> readyState c \<noteq> ChOpen)
    \<longrightarrow> send message m = Inl (Error (lit ''Data channel not open'')))
   \<and> (\<forall>ch c. dataChannel m = Some ch \<and> channels m ch = Some c \<and> readyState c = ChOpen
        \<longrightarrow> (\<forall>s. send (Plain s) m = Inr (m\<lparr>channels := (channels m)(ch \<mapsto> c\<lparr>sent := sent c @ [s]\<rparr>)\<rparr>))
          \<and> (\<forall>v. send (Structured v) m
                 = Inr (m\<lparr>channels := (channels m)(ch \<mapsto> c\<lparr>sent := sent c @ [stringify v]\<rparr>)\<rparr>)))
   \<and> (\<forall>v. representable v \<longrightarrow> JSON_parse (stringify v) = Inr v)"
proof -
  have closed: "dataChannel m = None
      \<or> (\<exists>ch c. dataChannel m = Some ch \<and> channels m ch = Some c \<and> readyState c \<noteq> ChOpen)
    \<Longrightarrow> send message m = Inl (Error (lit ''Data channel not open''))"
    by (auto simp: send_def channelOpen_def)
  have "open": "send msg m
      = Inr (m\<lparr>channels := (channels m)(ch \<mapsto> c\<lparr>sent := sent c
            @ [case msg of Structured v \<Rightarrow> stringify v | Plain s \<Rightarrow> s]\<rparr>)\<rparr>)"
    if "dataChannel m = Some ch" "channels m ch = Some c" "readyState c = ChOpen" for ch c msg
    using that by (simp add: send_def channelOpen_def updateChannel_def)
  from closed "open"[where msg = "Plain _"] "open"[where msg = "Structured _"] parse_stringify
  show ?thesis by simp
qed

lemma opened_eq:
  "opened = offering\<lparr>state := CONNECTED, onStateChange := [OFFERING, CONNECTED],
       channels := [2 \<mapsto> newChannel ChOpen]\<rparr>"
  unfolding opened_def by (rule offering_open_eq)

lemma representable_exampleMessage: "representable exampleMessage"
  by (simp add: exampleMessage_def isNumberText_def lexNumber_def lexFraction_def
      lexExponent_def lit_def isDigit_def)

theorem send_behaviour_witness:
  "dataChannel createDirectConnection = None
   \<and> send (Plain (lit ''test'')) createDirectConnection = Inl (Error (lit ''Data channel not open''))
   \<and> dataChannel opened = Some 2 \<and> channels opened 2 = Some (newChannel ChOpen)
   \<and> readyState (newChannel ChOpen) = ChOpen
   \<and> send (Plain (lit ''test'')) opened
       = Inr (opened\<lparr>channels := (channels opened)
               (2 \<mapsto> (newChannel ChOpen)\<lparr>sent := sent (newChannel ChOpen) @ [lit ''test'']\<rparr>)\<rparr>)
   \<and> send (Structured exampleMessage) opened
       = Inr (opened\<lparr>channels := (channels opened)
               (2 \<mapsto> (newChannel ChOpen)\<lparr>sent := sent (newChannel ChOpen) @ [stringify exampleMessage]\<rparr>)\<rparr>)
   \<and> representable exampleMessage
   \<and> JSON_parse (stringify exampleMessage) = Inr exampleMessage"
proof -
  have a: "dataChannel createDirectConnection = None"
    by (simp add: createDirectConnection_def)
  have b: "dataChannel opened = Some 2" "channels opened 2 = Some (newChannel ChOpen)"
    by (simp_all add: opened_eq offering_eq)
  have c: "readyState (newChannel ChOpen) = ChOpen"
    by (simp add: newChannel_def)
  from send_behaviour [of createDirectConnection "Plain (lit ''test'')"]
    send_behaviour [of opened "Plain (lit ''test'')"] a b c representable_exampleMessage
  show ?thesis by simp
qed

section \<open>The codec on well-formed input\<close>

subsection \<open>Splitting and joining\<close>

lemma split_no_sep: "sep \<notin> set x \<Longrightarrow> split sep x = [x]"
  by (induction x) auto

lemma split_append_sep:
  "sep \<notin> set x \<Longrightarrow> split sep (x @ sep # r) = x # split sep r"
  by (induction x) auto

lemma split_join:
  "xs \<noteq> [] \<Longrightarrow> \<forall>x \<in> set xs. sep \<notin> set x \<Longrightarrow> split sep (join [sep] xs) = xs"
proof (induction xs)
  case Nil
  then show ?case by simp
next
  case (Cons x xs)
  show ?case
  proof (cases xs)
    case Nil
    with Cons.prems show ?thesis by (simp add: split_no_sep)
  next
    case (Cons y ys)
    with Cons.prems Cons.IH have "split sep (join [sep] (y # ys)) = y # ys" by simp
    with Cons Cons.prems show ?thesis by (simp add: split_append_sep)
  qed
qed

subsection \<open>The hexadecimal text of a byte\<close>

definition hexDigitUpper :: "nat \<Rightarrow> nat" where
  "hexDigitUpper d = (if d < 10 then 48 + d else 55 + d)"

lemma hexText_byte:
  "b < 256 \<Longrightarrow> padStart2 (hexText b) = [hexDigitLower (b div 16), hexDigitLower (b mod 16)]"
proof -
  assume b: "b < 256"
  show ?thesis
  proof (cases "b < 16")
    case True
    then show ?thesis by (simp add: padStart2_def hexDigitLower_def)
  next
    case False
    with b have "b div 16 < 16" by simp
    with False show ?thesis
      by (subst hexText.simps) (simp add: padStart2_def)
  qed
qed

lemma hexByte_digits:
  "b < 256 \<Longrightarrow> hexByte b = [hexDigitUpper (b div 16), hexDigitUpper (b mod 16)]"
proof -
  assume b: "b < 256"
  have up: "d < 16 \<Longrightarrow> (if 97 \<le> hexDigitLower d \<and> hexDigitLower d \<le> 122 then hexDigitLower d - 32
      else hexDigitLower d) = hexDigitUpper d" for d
    by (auto simp: hexDigitLower_def hexDigitUpper_def)
  from b have "b div 16 < 16" "b mod 16 < 16" by simp_all
  then show ?thesis
    by (simp add: hexByte_def hexText_byte[OF b] toUpperCase_def up del: hexText.simps)
qed

lemma hexDigitUpper_props:
  "d < 16 \<Longrightarrow> digitValue (hexDigitUpper d) = Some d \<and> \<not> isWhiteSpace (hexDigitUpper d)
     \<and> hexDigitUpper d \<noteq> 45 \<and> hexDigitUpper d \<noteq> 43 \<and> hexDigitUpper d \<noteq> 58
     \<and> hexDigitUpper d \<noteq> 120 \<and> hexDigitUpper d \<noteq> 88"
  by (auto simp: hexDigitUpper_def digitValue_def isWhiteSpace_def isLineTerminator_def)

lemma toNumber_small: "\<bar>v\<bar> \<le> 2 ^ 53 \<Longrightarrow> toNumber pf v = v"
  by (simp add: toNumber_def)

lemma parseInt_hexByte:
  assumes "b < 256"
  shows "parseInt pf (hexByte b) 16 = Some (int b)"
proof -
  from assms have x: "b div 16 < 16" and y: "b mod 16 < 16" by simp_all
  note px = hexDigitUpper_props[OF x] and py = hexDigitUpper_props[OF y]
  have val: "b div 16 * 16 + b mod 16 = b" by simp
  have small: "\<bar>int b\<bar> \<le> 2 ^ 53" using assms by simp
  have ne: "[hexDigitUpper (b div 16), hexDigitUpper (b mod 16)] \<noteq> lit ''0x''"
    "[hexDigitUpper (b div 16), hexDigitUpper (b mod 16)] \<noteq> lit ''0X''"
    using py by (simp_all add: lit_def)
  show ?thesis
    unfolding hexByte_digits[OF assms] parseInt_def Let_def
    using px py ne val
    by (simp add: isRadixDigit_def digitsValue_def x y toNumber_small[OF small])
qed

lemma hexByte_no_colon: "b < 256 \<Longrightarrow> 58 \<notin> set (hexByte b)"
proof -
  assume b: "b < 256"
  then have "b div 16 < 16" "b mod 16 < 16" by simp_all
  with hexDigitUpper_props show ?thesis by (auto simp: hexByte_digits[OF b])
qed

lemma fromCharCode_int: "b < 65536 \<Longrightarrow> fromCharCode (Some (int b)) = b"
  by (simp add: fromCharCode_def)

text \<open>
  The bytes \<^verbatim>\<open>compressSignaling\<close> reads from a fingerprint written as two upper-case
  hexadecimal digits per byte, with colons between.
\<close>

lemma fingerprint_bytes:
  assumes "digest \<noteq> []" "\<forall>b \<in> set digest. b < 256"
  shows "map fromCharCode (map (\<lambda>h. parseInt pf h 16) (split 58 (join [58] (map hexByte digest))))
           = digest"
proof -
  have "split 58 (join [58] (map hexByte digest)) = map hexByte digest"
    using assms by (intro split_join) (auto simp: hexByte_no_colon)
  moreover have "map fromCharCode (map (\<lambda>h. parseInt pf h 16) (map hexByte digest)) = digest"
    using assms(2) by (induction digest) (simp_all add: parseInt_hexByte fromCharCode_int)
  ultimately show ?thesis by simp
qed

subsection \<open>What a candidate line carries\<close>

text \<open>
  The network path \<^verbatim>\<open>compressSignaling\<close> reads from a candidate: the four numbers of the
  address, the port and the kind, from the first match of its regular expression.
\<close>

definition pathOf :: "ice_candidate \<Rightarrow> (nat list \<times> nat \<times> jsstring) option" where
  "pathOf c =
     (case matchCandidate (candidate c) of
        None \<Rightarrow> None
      | Some (ip, port, typ) \<Rightarrow>
          Some (map (digitsValue 10) (split 46 ip), digitsValue 10 port, typ))"

text \<open>
  A well-formed path: an IPv4 address (each number below 256), a 16-bit port, and one of
  the three kinds.
\<close>

definition wellFormedPath :: "ice_candidate \<Rightarrow> bool" where
  "wellFormedPath c =
     (case pathOf c of
        None \<Rightarrow> False
      | Some (address, port, kind) \<Rightarrow>
          list_all (\<lambda>n. n < 256) address \<and> port < 65536
          \<and> (kind = lit ''host'' \<or> kind = lit ''srflx'' \<or> kind = lit ''relay''))"

text \<open>The candidate \<^verbatim>\<open>decompressSignaling\<close> writes for a path at an index.\<close>

definition candidateOfPath :: "nat \<Rightarrow> nat list \<times> nat \<times> jsstring \<Rightarrow> ice_candidate" where
  "candidateOfPath index p =
     (case p of
        (address, port, kind) \<Rightarrow>
          \<lparr>candidate =
             lit ''candidate:'' @ natText index @ lit '' 1 udp ''
             @ intText (2113937151 - int index * 100) @ lit '' '' @ join [46] (map natText address)
             @ lit '' '' @ natText port @ lit '' typ '' @ kind,
           sdpMid = lit ''0'',
           sdpMLineIndex = 0\<rparr>)"

fun restored :: "nat \<Rightarrow> (nat list \<times> nat \<times> jsstring) list \<Rightarrow> ice_candidate list" where
  "restored index [] = []"
| "restored index (p # ps) = candidateOfPath index p # restored (Suc index) ps"

definition digitText :: "jsstring \<Rightarrow> bool" where
  "digitText ds = (ds \<noteq> [] \<and> list_all isDigit ds)"

lemma digitsThen_Some:
  "digitsThen sep s = Some (ds, r) \<Longrightarrow> digitText ds"
  by (auto simp: digitsThen_def Let_def digitText_def list_all_iff split: if_splits dest: set_takeWhileD)

lemma matchCandidateHere_shape:
  assumes "matchCandidateHere s = Some (ip, port, typ)"
  shows "\<exists>a b c d. ip = a @ [46] @ b @ [46] @ c @ [46] @ d
           \<and> digitText a \<and> digitText b \<and> digitText c \<and> digitText d
           \<and> digitText port \<and> typ \<noteq> [] \<and> list_all isWordChar typ"
proof -
  from assms obtain a s1 b s2 c s3 d s4 s5 where
    a: "digitsThen 46 s = Some (a, s1)" and b: "digitsThen 46 s1 = Some (b, s2)"
    and c: "digitsThen 46 s2 = Some (c, s3)" and d: "digitsThen 32 s3 = Some (d, s4)"
    and p: "digitsThen 32 s4 = Some (port, s5)"
    and rest: "ip = a @ [46] @ b @ [46] @ c @ [46] @ d" "typ = takeWhile isWordChar (drop 4 s5)"
      "typ \<noteq> []"
    by (auto simp: matchCandidateHere_def split: option.splits prod.splits if_splits)
  from rest(2) have "list_all isWordChar typ"
    by (auto simp: list_all_iff dest: set_takeWhileD)
  with a b c d p rest digitsThen_Some show ?thesis by blast
qed

lemma matchCandidate_shape:
  assumes "matchCandidate s = Some (ip, port, typ)"
  shows "\<exists>a b c d. ip = a @ [46] @ b @ [46] @ c @ [46] @ d
           \<and> digitText a \<and> digitText b \<and> digitText c \<and> digitText d
           \<and> digitText port \<and> typ \<noteq> [] \<and> list_all isWordChar typ"
  using assms
proof (induction s)
  case Nil
  then show ?case by simp
next
  case (Cons x xs)
  show ?case
  proof (cases "matchCandidateHere (x # xs)")
    case None
    with Cons show ?thesis by simp
  next
    case (Some m)
    with Cons.prems have "matchCandidateHere (x # xs) = Some (ip, port, typ)" by simp
    then show ?thesis by (rule matchCandidateHere_shape)
  qed
qed

lemma digitText_no_dot: "digitText ds \<Longrightarrow> 46 \<notin> set ds"
  by (auto simp: digitText_def list_all_iff isDigit_def)

lemma split_address:
  assumes "digitText a" "digitText b" "digitText c" "digitText d"
  shows "split 46 (a @ [46] @ b @ [46] @ c @ [46] @ d) = [a, b, c, d]"
  using assms by (simp add: split_append_sep split_no_sep digitText_no_dot)

lemma parseInt_digits:
  assumes "digitText ds" "digitsValue 10 ds \<le> 2 ^ 53"
  shows "parseInt pf ds 0 = Some (int (digitsValue 10 ds))"
proof -
  from assms(1) obtain x xs where ds: "ds = x # xs" and x: "isDigit x" and xs: "list_all isDigit xs"
    by (cases ds) (auto simp: digitText_def)
  have nows: "\<not> isWhiteSpace x" "x \<noteq> 45" "x \<noteq> 43"
    using x by (auto simp: isDigit_def isWhiteSpace_def isLineTerminator_def)
  have nohex: "take 2 ds \<noteq> lit ''0x''" "take 2 ds \<noteq> lit ''0X''"
    using xs unfolding ds by (cases xs; auto simp: lit_def isDigit_def)+
  have radix: "isRadixDigit 10 c = isDigit c" for c
    by (auto simp: isRadixDigit_def digitValue_def isDigit_def)
  have all: "takeWhile (isRadixDigit 10) ds = ds"
    using assms(1) by (auto simp: radix[abs_def] digitText_def list_all_iff)
  have small: "\<bar>int (digitsValue 10 ds)\<bar> \<le> 2 ^ 53"
    using assms(2) by (metis abs_of_nat of_nat_le_iff of_nat_numeral of_nat_power)
  have s1: "dropWhile isWhiteSpace ds = ds" using nows ds by simp
  show ?thesis
    unfolding parseInt_def Let_def s1
    using nows nohex all small by (simp add: ds toNumber_small)
qed

lemma or_bytes: "lo < 256 \<Longrightarrow> push_bit 8 hi OR lo = hi * 256 + (lo::nat)"
proof -
  assume "lo < 256"
  then have t: "take_bit 8 lo = lo" by (simp add: take_bit_eq_mod)
  have "push_bit 8 hi AND take_bit 8 lo = 0"
    by (simp add: bit_eq_iff bit_simps)
  then have "push_bit 8 hi + take_bit 8 lo = push_bit 8 hi OR take_bit 8 lo"
    by (rule disjunctive_add_eq_or)
  then show ?thesis by (simp add: t push_bit_eq_mult)
qed

lemma toInt32_small: "v < 2 ^ 31 \<Longrightarrow> toInt32 (Some (int v)) = int v"
proof -
  assume v: "v < 2 ^ 31"
  then have "int v < 2 ^ 31" by (metis of_nat_less_iff of_nat_numeral of_nat_power)
  then have "int v mod 2 ^ 32 = int v" "\<not> 2 ^ 31 \<le> int v" by simp_all
  then show ?thesis by (simp add: toInt32_def Let_def)
qed

lemma port_bytes:
  assumes "port < 65536"
  shows "fromCharCode (Some (toInt32 (Some (int port)) div 256 mod 256)) = port div 256"
    and "fromCharCode (Some (toInt32 (Some (int port)) mod 256)) = port mod 256"
proof -
  from assms have "port < 2 ^ 31" by simp
  then have t: "toInt32 (Some (int port)) = int port" by (rule toInt32_small)
  have hi: "int port div 256 mod 256 = int (port div 256 mod 256)"
    by (simp add: zdiv_int zmod_int)
  have lo: "int port mod 256 = int (port mod 256)"
    by (simp add: zmod_int)
  from assms have "port div 256 < 256" by simp
  then have "port div 256 mod 256 = port div 256" by simp
  then show "fromCharCode (Some (toInt32 (Some (int port)) div 256 mod 256)) = port div 256"
    unfolding t hi by (simp add: fromCharCode_int)
  show "fromCharCode (Some (toInt32 (Some (int port)) mod 256)) = port mod 256"
    unfolding t lo by (simp add: fromCharCode_int)
qed

lemma number_small:
  assumes "digitsValue 10 ds < 256"
  shows "fromCharCode (Some (NumberOfDigits pf ds)) = digitsValue 10 ds"
proof -
  from assms have "\<bar>int (digitsValue 10 ds)\<bar> \<le> 2 ^ 53" by simp
  then have "NumberOfDigits pf ds = int (digitsValue 10 ds)"
    by (simp add: NumberOfDigits_def toNumber_small)
  with assms show ?thesis by (simp add: fromCharCode_int)
qed

lemma btoa_bytes: "list_all (\<lambda>n. n < 256) bs \<Longrightarrow> btoa bs = Inr (encodeGroups bs)"
  by (auto simp: btoa_def list_all_iff)

lemma compressCandidate_wellFormed:
  assumes "pathOf c = Some (address, port, kind)" "list_all (\<lambda>n. n < 256) address" "port < 65536"
  shows "length address = 4 \<and> kind \<noteq> []
       \<and> compressCandidate pf c
           = Inr (Some (encodeGroups (address @ [port div 256, port mod 256]) @ 58 # [hd kind]))"
proof -
  from assms(1) obtain ip portText where
    m: "matchCandidate (candidate c) = Some (ip, portText, kind)"
    and addr: "address = map (digitsValue 10) (split 46 ip)"
    and port: "port = digitsValue 10 portText"
    by (auto simp: pathOf_def split: option.splits)
  from matchCandidate_shape[OF m] obtain a b c' d where
    ip: "ip = a @ [46] @ b @ [46] @ c' @ [46] @ d"
    and dg: "digitText a" "digitText b" "digitText c'" "digitText d" "digitText portText"
    and kind: "kind \<noteq> []"
    by blast
  have sp: "split 46 ip = [a, b, c', d]"
    unfolding ip by (rule split_address[OF dg(1-4)])
  with addr have address: "address = [digitsValue 10 a, digitsValue 10 b, digitsValue 10 c', digitsValue 10 d]"
    by simp
  with assms(2) have small: "digitsValue 10 a < 256" "digitsValue 10 b < 256"
    "digitsValue 10 c' < 256" "digitsValue 10 d < 256" by simp_all
  have "digitsValue 10 portText \<le> 2 ^ 53" using assms(3) port by simp
  from parseInt_digits[OF dg(5) this] have pn: "parseInt pf portText 0 = Some (int port)"
    by (simp add: port)
  have bytes: "[fromCharCode (Some (NumberOfDigits pf a)), fromCharCode (Some (NumberOfDigits pf b)),
       fromCharCode (Some (NumberOfDigits pf c')), fromCharCode (Some (NumberOfDigits pf d)),
       fromCharCode (Some (toInt32 (Some (int port)) div 256 mod 256)),
       fromCharCode (Some (toInt32 (Some (int port)) mod 256))]
      = address @ [port div 256, port mod 256]"
    by (simp add: address number_small small port_bytes[OF assms(3)])
  from assms(3) have "port div 256 < 256" by simp
  with assms(2) have "list_all (\<lambda>n. n < 256) (address @ [port div 256, port mod 256])" by simp
  then have enc: "btoa (address @ [port div 256, port mod 256])
      = Inr (encodeGroups (address @ [port div 256, port mod 256]))"
    by (rule btoa_bytes)
  have tk: "take (Suc 0) kind = [hd kind]" using kind by (cases kind) simp_all
  have "compressCandidate pf c
      = Inr (Some (encodeGroups (address @ [port div 256, port mod 256]) @ 58 # [hd kind]))"
    unfolding compressCandidate_def m by (simp add: Let_def sp pn bytes enc tk del: encodeGroups.simps)
  with address kind show ?thesis by simp
qed

lemma b64char_no_colon: "b64char i \<noteq> 58"
  by (auto simp: b64char_def)

lemma encodeGroups_no_colon: "58 \<notin> set (encodeGroups bs)"
  by (induction bs rule: encodeGroups.induct) (simp_all add: b64char_no_colon)

lemma typText_kind:
  "kind = lit ''host'' \<or> kind = lit ''srflx'' \<or> kind = lit ''relay''
     \<Longrightarrow> typText pf (Some [hd kind]) = kind \<and> hd kind \<noteq> 58"
  by (auto simp: typText_def lit_def)

lemma decompressCandidate_encoded:
  assumes "length address = 4" "list_all (\<lambda>n. n < 256) address" "port < 65536"
    "kind = lit ''host'' \<or> kind = lit ''srflx'' \<or> kind = lit ''relay''"
  shows "decompressCandidate pf
           (JStr (encodeGroups (address @ [port div 256, port mod 256]) @ 58 # [hd kind])) index
         = Inr (candidateOfPath index (address, port, kind))"
proof -
  let ?bytes = "address @ [port div 256, port mod 256]"
  let ?enc = "encodeGroups ?bytes"
  note tt = typText_kind[OF assms(4), of pf]
  have sp: "split 58 (?enc @ 58 # [hd kind]) = [?enc, [hd kind]]"
    using tt by (simp add: split_append_sep encodeGroups_no_colon split_no_sep del: encodeGroups.simps)
  from assms(3) have hi: "port div 256 < 256" by simp
  with assms(2) have "\<forall>b \<in> set ?bytes. b < 256" by (auto simp: list_all_iff)
  then have dec: "atob ?enc = Inr ?bytes" by (rule atob_encodeGroups)
  have tk: "take 4 ?bytes = address" using assms(1) by simp
  have b4: "byteAt ?bytes 4 = port div 256" "byteAt ?bytes 5 = port mod 256"
    using assms(1) by (simp_all add: byteAt_def nth_append)
  have pt: "push_bit 8 (port div 256) OR (port mod 256) = port"
    by (simp add: or_bytes)
  show ?thesis
    unfolding decompressCandidate_def json.case sp
    by (simp add: Let_def dec assms(1) b4 pt tt candidateOfPath_def del: encodeGroups.simps)
qed

text \<open>The text a path is packed into: base64 of its six bytes, a colon, the kind's first letter.\<close>

definition encodedPath :: "nat list \<times> nat \<times> jsstring \<Rightarrow> jsstring" where
  "encodedPath p =
     (case p of
        (address, port, kind) \<Rightarrow>
          encodeGroups (address @ [port div 256, port mod 256]) @ 58 # [hd kind])"

lemma encodedPath_nonempty: "encodedPath p \<noteq> []"
  by (cases p) (simp add: encodedPath_def)

lemma wellFormedPath_D:
  assumes "wellFormedPath c"
  obtains address port kind where "pathOf c = Some (address, port, kind)"
    "list_all (\<lambda>n. n < 256) address" "port < 65536"
    "kind = lit ''host'' \<or> kind = lit ''srflx'' \<or> kind = lit ''relay''"
    "length address = 4"
    "compressCandidate pf c = Inr (Some (encodedPath (address, port, kind)))"
proof -
  from assms obtain address port kind where p: "pathOf c = Some (address, port, kind)"
    and b: "list_all (\<lambda>n. n < 256) address" "port < 65536"
    and k: "kind = lit ''host'' \<or> kind = lit ''srflx'' \<or> kind = lit ''relay''"
    by (auto simp: wellFormedPath_def split: option.splits)
  from compressCandidate_wellFormed[OF p b, of pf] that[OF p b k] show thesis
    by (simp add: encodedPath_def)
qed

lemma wellFormedPath_candidate: "wellFormedPath c \<Longrightarrow> candidate c \<noteq> []"
  by (auto simp: wellFormedPath_def pathOf_def split: option.splits)

lemma mapCandidates_wellFormed:
  "list_all wellFormedPath xs
     \<Longrightarrow> mapCandidates pf xs = Inr (map (\<lambda>c. Some (encodedPath (the (pathOf c)))) xs)"
proof (induction xs)
  case Nil
  show ?case by simp
next
  case (Cons c xs)
  then have wf: "wellFormedPath c" and rest: "list_all wellFormedPath xs" by simp_all
  from wf obtain address port kind where "pathOf c = Some (address, port, kind)"
    "compressCandidate pf c = Inr (Some (encodedPath (address, port, kind)))"
    by (rule wellFormedPath_D)
  with Cons.IH[OF rest] show ?case by simp
qed

lemma kept_wellFormed:
  "list_all wellFormedPath xs \<Longrightarrow> [c. Some c \<leftarrow> map Some xs, candidate c \<noteq> []] = xs"
  by (induction xs) (simp_all add: wellFormedPath_candidate)

lemma truthy_encoded:
  "[x. Some x \<leftarrow> map (\<lambda>c. Some (encodedPath (f c))) xs, x \<noteq> []] = map (\<lambda>c. encodedPath (f c)) xs"
  by (induction xs) (simp_all add: encodedPath_nonempty)

lemma decompressCandidates_encoded:
  "list_all wellFormedPath xs
     \<Longrightarrow> decompressCandidates pf (map (\<lambda>c. JStr (encodedPath (the (pathOf c)))) xs) index
         = Inr (restored index (map (\<lambda>c. the (pathOf c)) xs))"
proof (induction xs arbitrary: index)
  case Nil
  show ?case by simp
next
  case (Cons c xs)
  then have wf: "wellFormedPath c" and rest: "list_all wellFormedPath xs" by simp_all
  from wf obtain address port kind where p: "pathOf c = Some (address, port, kind)"
    and b: "list_all (\<lambda>n. n < 256) address" "port < 65536"
      "kind = lit ''host'' \<or> kind = lit ''srflx'' \<or> kind = lit ''relay''" "length address = 4"
    by (rule wellFormedPath_D)
  from decompressCandidate_encoded[OF b(4) b(1) b(2) b(3), of pf index]
  have "decompressCandidate pf (JStr (encodedPath (the (pathOf c)))) index
      = Inr (candidateOfPath index (the (pathOf c)))"
    by (simp add: p encodedPath_def)
  with Cons.IH[OF rest, of "Suc index"] show ?case by simp
qed

subsection \<open>The record inside a token\<close>

definition tokenData :: "jsstring \<Rightarrow> jsstring \<Rightarrow> jsstring \<Rightarrow> jsstring \<Rightarrow> jsstring list \<Rightarrow> json" where
  "tokenData t u p f c =
     JObj [(lit ''t'', JStr t), (lit ''u'', JStr u), (lit ''p'', JStr p), (lit ''f'', JStr f),
           (lit ''c'', JArr (map JStr c))]"

text \<open>The three values \<^verbatim>\<open>compressSignaling\<close> takes from the document.\<close>

definition iceUfragOf :: "description \<Rightarrow> jsstring" where
  "iceUfragOf d = trim (the (matchField (lit ''a=ice-ufrag:'') (sdp d)))"

definition icePwdOf :: "description \<Rightarrow> jsstring" where
  "icePwdOf d = trim (the (matchField (lit ''a=ice-pwd:'') (sdp d)))"

definition fingerprintOf :: "description \<Rightarrow> jsstring" where
  "fingerprintOf d = trim (the (matchField (lit ''a=fingerprint:sha-256 '') (sdp d)))"

definition hasRequiredFields :: "description \<Rightarrow> bool" where
  "hasRequiredFields d =
     (hasField (lit ''a=ice-ufrag:'') (sdp d) \<and> hasField (lit ''a=ice-pwd:'') (sdp d)
      \<and> hasField (lit ''a=fingerprint:sha-256 '') (sdp d))"

lemma compressSignaling_present:
  assumes "hasRequiredFields d"
  shows "compressSignaling pf d cs =
     (case btoa (map fromCharCode (map (\<lambda>h. parseInt pf h 16) (split 58 (fingerprintOf d)))) of
        Inl e \<Rightarrow> Inl e
      | Inr f \<Rightarrow>
          (case mapCandidates pf [c. Some c \<leftarrow> cs, candidate c \<noteq> []] of
             Inl e \<Rightarrow> Inl e
           | Inr mapped \<Rightarrow>
               btoa (stringify (tokenData (if type d = lit ''offer'' then lit ''o'' else lit ''a'')
                 (iceUfragOf d) (icePwdOf d) f (take 5 [x. Some x \<leftarrow> mapped, x \<noteq> []])))))"
proof -
  from assms have g:
    "\<not> (matchField (lit ''a=ice-ufrag:'') (sdp d) = None
        \<or> matchField (lit ''a=ice-pwd:'') (sdp d) = None
        \<or> matchField (lit ''a=fingerprint:sha-256 '') (sdp d) = None)"
    by (simp add: hasRequiredFields_def matchField_None_iff)
  show ?thesis
    unfolding compressSignaling_def Let_def tokenData_def iceUfragOf_def icePwdOf_def
      fingerprintOf_def
    by (simp only: g if_False)
qed

lemma representableElements_strings: "representableElements (map JStr xs)"
  by (induction xs) simp_all

lemma representable_tokenData: "representable (tokenData t u p f c)"
  by (simp add: tokenData_def representableElements_strings)

lemma tokenRecord_btoa:
  assumes "btoa (stringify v) = Inr tok" "representable v"
  shows "tokenRecord tok = Some v"
proof -
  from assms(1) have tok: "tok = encodeGroups (stringify v)" and "\<forall>c \<in> set (stringify v). c < 256"
    by (auto simp: btoa_def not_less[symmetric] split: if_splits)
  then have "atob tok = Inr (stringify v)" by (simp add: atob_encodeGroups)
  with parse_stringify[OF assms(2)] show ?thesis by (simp add: tokenRecord_def)
qed

lemma tokenData_props:
  "getProp (tokenData t u p f c) (lit ''t'') = Inr (Some (JStr t))"
  "property (tokenData t u p f c) (lit ''u'') = Some (JStr u)"
  "property (tokenData t u p f c) (lit ''p'') = Some (JStr p)"
  "property (tokenData t u p f c) (lit ''f'') = Some (JStr f)"
  "property (tokenData t u p f c) (lit ''c'') = Some (JArr (map JStr c))"
  by (simp_all add: tokenData_def getProp_def property_def lit_def)

lemma decompress_tokenData:
  assumes "tokenRecord tok = Some (tokenData t u p f c)"
  shows "decompressSignaling pf tok =
     (case atob f of
        Inl e \<Rightarrow> Inl e
      | Inr fingerprintBytes \<Rightarrow>
          (case decompressCandidates pf (map JStr c) 0 of
             Inl e \<Rightarrow> Inl e
           | Inr candidates \<Rightarrow>
               Inr (\<lparr>type = (if t = lit ''o'' then lit ''offer'' else lit ''answer''),
                     sdp = minimalSdp (now pf) u p (join [58] (map hexByte fingerprintBytes))
                             (if t = lit ''o'' then lit ''offer'' else lit ''answer'')\<rparr>,
                    candidates)))"
proof -
  from assms obtain tx where a: "atob tok = Inr tx" and b: "JSON_parse tx = Inr (tokenData t u p f c)"
    by (auto simp: tokenRecord_def split: sum.splits)
  show ?thesis
    unfolding decompressSignaling_def a sum.case b tokenData_props
    by (simp add: Let_def toStringOpt_def falsy_def split: sum.splits)
qed

subsection \<open>Code units up to 255\<close>

definition latin1 :: "jsstring \<Rightarrow> bool" where
  "latin1 s = list_all (\<lambda>c. c \<le> 255) s"

lemma latin1_simps [simp]:
  "latin1 []" "latin1 (c # s) = (c \<le> 255 \<and> latin1 s)" "latin1 (a @ b) = (latin1 a \<and> latin1 b)"
  by (simp_all add: latin1_def)

lemma hexDigitLower_le: "d < 16 \<Longrightarrow> hexDigitLower d \<le> 255"
  by (simp add: hexDigitLower_def)

lemma latin1_unicodeEscape: "latin1 (unicodeEscape c)"
  by (simp add: unicodeEscape_def hexDigitLower_le)

lemma latin1_quoteChars: "latin1 s \<Longrightarrow> latin1 (quoteChars s)"
proof (induction "length s" arbitrary: s rule: less_induct)
  case less
  show ?case
  proof (cases s)
    case Nil
    then show ?thesis by simp
  next
    case (Cons c cs)
    with less.prems have c: "c \<le> 255" and cs: "latin1 cs" by simp_all
    from c have nosur: "\<not> isHighSurrogate c" by (simp add: isHighSurrogate_def)
    have IH: "latin1 (quoteChars cs)" using less.hyps[of cs] cs Cons by simp
    from c nosur IH show ?thesis
      unfolding Cons by (simp add: latin1_unicodeEscape)
  qed
qed

lemma latin1_quote: "latin1 s \<Longrightarrow> latin1 (quote s)"
  by (simp add: quote_def latin1_quoteChars)

lemma b64char_latin1: "b64char i \<le> 255"
  by (auto simp: b64char_def)

lemma latin1_encodeGroups: "latin1 (encodeGroups bs)"
  by (induction bs rule: encodeGroups.induct) (simp_all add: b64char_latin1)

lemma latin1_lit_keys: "latin1 (quote (lit ''t''))" "latin1 (quote (lit ''u''))"
  "latin1 (quote (lit ''p''))" "latin1 (quote (lit ''f''))" "latin1 (quote (lit ''c''))"
  by (simp_all add: quote_def lit_def isHighSurrogate_def isLowSurrogate_def)

lemma latin1_elements: "list_all latin1 xs \<Longrightarrow> latin1 (stringifyElements (map JStr xs))"
proof (induction xs)
  case Nil
  show ?case by simp
next
  case (Cons x xs)
  then show ?case by (cases xs) (simp_all add: latin1_quote)
qed

lemma latin1_tokenData:
  assumes "latin1 t" "latin1 u" "latin1 p" "latin1 f" "list_all latin1 c"
  shows "latin1 (stringify (tokenData t u p f c))"
  using assms by (simp add: tokenData_def latin1_quote latin1_lit_keys latin1_elements)

lemma btoa_latin1: "latin1 s \<Longrightarrow> btoa s = Inr (encodeGroups s)"
  by (auto simp: btoa_def latin1_def list_all_iff)

lemma latin1_encodedPath:
  assumes "kind = lit ''host'' \<or> kind = lit ''srflx'' \<or> kind = lit ''relay''"
  shows "latin1 (encodedPath (address, port, kind))"
proof -
  from assms have "hd kind \<le> 255" by (auto simp: lit_def)
  then show ?thesis by (simp add: encodedPath_def latin1_encodeGroups del: encodeGroups.simps)
qed

lemma latin1_encoded_list:
  "list_all wellFormedPath xs \<Longrightarrow> list_all latin1 (map (\<lambda>c. encodedPath (the (pathOf c))) xs)"
proof (induction xs)
  case Nil
  show ?case by simp
next
  case (Cons c xs)
  then have wf: "wellFormedPath c" and rest: "list_all wellFormedPath xs" by simp_all
  from wf obtain address port kind where "pathOf c = Some (address, port, kind)"
    "kind = lit ''host'' \<or> kind = lit ''srflx'' \<or> kind = lit ''relay''"
    by (rule wellFormedPath_D)
  with Cons.IH[OF rest] latin1_encodedPath show ?case by simp
qed

lemma list_all_take: "list_all P xs \<Longrightarrow> list_all P (take n xs)"
  by (auto simp: list_all_iff dest: in_set_takeD)

text \<open>
  Compressing a well-formed document with well-formed candidates gives a token, and
  decompressing the token gives the document's role, its two credentials and its
  fingerprint in the minimal SDP, with the paths of the first five candidates.
\<close>

lemma codec_round_trip:
  assumes fields: "hasRequiredFields d"
    and role: "type d = lit ''offer'' \<or> type d = lit ''answer''"
    and cred: "latin1 (iceUfragOf d)" "latin1 (icePwdOf d)"
    and fp: "fingerprintOf d = join [58] (map hexByte digest)" "digest \<noteq> []"
      "list_all (\<lambda>b. b < 256) digest"
    and paths: "list_all wellFormedPath xs"
  shows "\<exists>token. compressSignaling pf d (map Some xs) = Inr token
       \<and> decompressSignaling pf token
           = Inr (\<lparr>type = type d,
                   sdp = minimalSdp (now pf) (iceUfragOf d) (icePwdOf d) (fingerprintOf d) (type d)\<rparr>,
                  restored 0 (map (\<lambda>c. the (pathOf c)) (take 5 xs)))"
proof -
  let ?t = "if type d = lit ''offer'' then lit ''o'' else lit ''a''"
  let ?g = "\<lambda>c. encodedPath (the (pathOf c))"
  let ?f = "encodeGroups digest"
  let ?data = "tokenData ?t (iceUfragOf d) (icePwdOf d) ?f (map ?g (take 5 xs))"
  let ?token = "encodeGroups (stringify ?data)"
  from fp(3) have dg: "\<forall>b \<in> set digest. b < 256" by (simp add: list_all_iff)
  have fb: "map fromCharCode (map (\<lambda>h. parseInt pf h 16) (split 58 (fingerprintOf d))) = digest"
    unfolding fp(1) by (rule fingerprint_bytes[OF fp(2) dg])
  have f64: "btoa digest = Inr ?f" by (rule btoa_bytes[OF fp(3)])
  have five: "list_all wellFormedPath (take 5 xs)" by (rule list_all_take[OF paths])
  have lt: "latin1 ?t" by (simp add: lit_def)
  have "latin1 (stringify ?data)"
    by (rule latin1_tokenData[OF lt cred latin1_encodeGroups latin1_encoded_list[OF five]])
  then have tok: "btoa (stringify ?data) = Inr ?token" by (rule btoa_latin1)
  have comp: "compressSignaling pf d (map Some xs) = Inr ?token"
    unfolding compressSignaling_present[OF fields] fb f64 sum.case kept_wellFormed[OF paths]
      mapCandidates_wellFormed[OF paths] truthy_encoded take_map
    by (rule tok)
  have rec: "tokenRecord ?token = Some ?data"
    by (rule tokenRecord_btoa[OF tok representable_tokenData])
  have fdec: "atob ?f = Inr digest" by (rule atob_encodeGroups[OF dg])
  have cdec: "decompressCandidates pf (map JStr (map ?g (take 5 xs))) 0
      = Inr (restored 0 (map (\<lambda>c. the (pathOf c)) (take 5 xs)))"
    using decompressCandidates_encoded[OF five, of pf 0] by (simp add: o_def)
  have ty: "(if ?t = lit ''o'' then lit ''offer'' else lit ''answer'') = type d"
    using role by (auto simp: lit_def)
  have "decompressSignaling pf ?token
      = Inr (\<lparr>type = type d,
              sdp = minimalSdp (now pf) (iceUfragOf d) (icePwdOf d) (fingerprintOf d) (type d)\<rparr>,
             restored 0 (map (\<lambda>c. the (pathOf c)) (take 5 xs)))"
    unfolding decompress_tokenData[OF rec] fdec cdec sum.case ty fp(1) ..
  with comp show ?thesis by blast
qed

lemma exampleOffer_fields:
  "matchField (lit ''a=ice-ufrag:'') (sdp exampleOffer) = Some (lit ''abcd'')"
  "matchField (lit ''a=ice-pwd:'') (sdp exampleOffer) = Some (lit ''EFGH'')"
  "matchField (lit ''a=fingerprint:sha-256 '') (sdp exampleOffer) = Some (lit ''AA:0B'')"
  by (simp_all add: exampleOffer_def exampleSdp_def lit_def isLineTerminator_def)

lemma hasField_iff: "hasField pre s \<longleftrightarrow> matchField pre s \<noteq> None"
  by (simp add: matchField_None_iff)

lemma exampleOffer_values:
  "hasRequiredFields exampleOffer" "iceUfragOf exampleOffer = lit ''abcd''"
  "icePwdOf exampleOffer = lit ''EFGH''" "fingerprintOf exampleOffer = lit ''AA:0B''"
proof -
  show "hasRequiredFields exampleOffer"
    using exampleOffer_fields
    by (simp add: hasRequiredFields_def hasField_iff)
  show "iceUfragOf exampleOffer = lit ''abcd''"
    unfolding iceUfragOf_def exampleOffer_fields by (simp add: trim_def lit_def isWhiteSpace_def isLineTerminator_def)
  show "icePwdOf exampleOffer = lit ''EFGH''"
    unfolding icePwdOf_def exampleOffer_fields by (simp add: trim_def lit_def isWhiteSpace_def isLineTerminator_def)
  show "fingerprintOf exampleOffer = lit ''AA:0B''"
    unfolding fingerprintOf_def exampleOffer_fields by (simp add: trim_def lit_def isWhiteSpace_def isLineTerminator_def)
qed

lemma exampleCandidate_match:
  "matchCandidate (candidate exampleCandidate) = Some (lit ''192.168.1.100'', lit ''54321'', lit ''host'')"
  by (simp add: exampleCandidate_def lit_def matchCandidateHere_def digitsThen_def isDigit_def
      isWordChar_def)

lemma exampleCandidate_path:
  "pathOf exampleCandidate = Some ([192, 168, 1, 100], 54321, lit ''host'')"
  unfolding pathOf_def exampleCandidate_match
  by (simp add: lit_def digitsValue_def digitValue_def)

subsection \<open>Reading a restored candidate\<close>

lemma digitsValue_snoc:
  "digitsValue r (ds @ [c]) = digitsValue r ds * r + (case digitValue c of None \<Rightarrow> 0 | Some d \<Rightarrow> d)"
  by (simp add: digitsValue_def)

lemma natText_props: "digitText (natText n) \<and> digitsValue 10 (natText n) = n"
proof (induction n rule: natText.induct)
  case (1 n)
  show ?case
  proof (cases "n < 10")
    case True
    then show ?thesis
      by (subst (1 2) natText.simps) (simp add: digitText_def isDigit_def digitsValue_def digitValue_def)
  next
    case False
    have d: "isDigit (48 + n mod 10)" "digitValue (48 + n mod 10) = Some (n mod 10)"
      by (simp_all add: isDigit_def digitValue_def)
    from False "1.IH" d show ?thesis
      by (subst (1 2) natText.simps) (simp add: digitText_def digitsValue_snoc del: natText.simps)
  qed
qed

lemma intText_chars: "46 \<notin> set (intText i)"
  using natText_props digitText_no_dot by (simp add: intText_def del: natText.simps)

lemma matchCandidate_skip:
  assumes "46 \<notin> set xs" "xs \<noteq> []" "\<not> isDigit (last xs)"
  shows "matchCandidate (xs @ rest) = matchCandidate rest"
  using assms
proof (induction xs)
  case Nil
  then show ?case by simp
next
  case (Cons x xs)
  have mem: "last (x # xs) \<in> set (x # xs)" by (rule last_in_set) simp
  have tw: "takeWhile isDigit ((x # xs) @ rest) = takeWhile isDigit (x # xs)"
    and dw: "dropWhile isDigit ((x # xs) @ rest) = dropWhile isDigit (x # xs) @ rest"
    using mem Cons.prems(3) by (rule takeWhile_append1, rule dropWhile_append1)
  have ne: "dropWhile isDigit (x # xs) \<noteq> []"
    using mem Cons.prems(3) by (metis dropWhile_eq_Nil_conv)
  then have "hd (dropWhile isDigit (x # xs)) \<in> set (x # xs)"
    by (metis hd_in_set set_dropWhileD)
  with Cons.prems(1) have "hd (dropWhile isDigit (x # xs)) \<noteq> 46" by auto
  with ne have "digitsThen 46 ((x # xs) @ rest) = None"
    unfolding digitsThen_def Let_def tw dw by simp
  then have here: "matchCandidateHere ((x # xs) @ rest) = None"
    by (simp add: matchCandidateHere_def)
  show ?case
  proof (cases xs)
    case Nil
    with here show ?thesis by simp
  next
    case inner: (Cons y ys)
    with Cons.prems have "46 \<notin> set xs" "xs \<noteq> []" "\<not> isDigit (last xs)" by simp_all
    from Cons.IH[OF this] here show ?thesis by simp
  qed
qed

lemma digitsThen_text:
  assumes "digitText ds" "\<not> isDigit sep"
  shows "digitsThen sep (ds @ sep # rest) = Some (ds, rest)"
proof -
  from assms(1) have all: "\<forall>c \<in> set ds. isDigit c" and ne: "ds \<noteq> []"
    by (simp_all add: digitText_def list_all_iff)
  from all assms(2) have "takeWhile isDigit (ds @ sep # rest) = ds"
    "dropWhile isDigit (ds @ sep # rest) = sep # rest"
    by (simp_all add: takeWhile_append2 dropWhile_append2)
  with ne show ?thesis by (simp add: digitsThen_def Let_def)
qed

lemma matchCandidateHere_line:
  assumes "digitText a" "digitText b" "digitText c" "digitText d" "digitText port"
    "kind \<noteq> []" "list_all isWordChar kind"
  shows "matchCandidateHere (a @ [46] @ b @ [46] @ c @ [46] @ d @ lit '' '' @ port @ lit '' typ '' @ kind)
       = Some (a @ [46] @ b @ [46] @ c @ [46] @ d, port, kind)"
proof -
  have n: "\<not> isDigit 46" "\<not> isDigit 32" by (simp_all add: isDigit_def)
  have sp: "lit '' '' = [32]" "lit '' typ '' = 32 # lit ''typ ''" by (simp_all add: lit_def)
  have t4: "take 4 (lit ''typ '' @ kind) = lit ''typ ''" "drop 4 (lit ''typ '' @ kind) = kind"
    by (simp_all add: lit_def)
  from assms(7) have w: "takeWhile isWordChar kind = kind"
    by (simp add: list_all_iff)
  show ?thesis
    unfolding matchCandidateHere_def sp append_Cons append_Nil append_assoc
      digitsThen_text[OF assms(1) n(1)] digitsThen_text[OF assms(2) n(1)]
      digitsThen_text[OF assms(3) n(1)] digitsThen_text[OF assms(4) n(2)]
      digitsThen_text[OF assms(5) n(2)] option.case prod.case t4 w
    using assms(6) by simp
qed

lemma matchCandidate_here:
  "matchCandidateHere s = Some m \<Longrightarrow> matchCandidate s = Some m"
  by (cases s) (simp_all add: matchCandidateHere_def digitsThen_def)

text \<open>The path read from a restored candidate is the path it was written for.\<close>

lemma pathOf_candidateOfPath:
  assumes "length address = 4" "kind = lit ''host'' \<or> kind = lit ''srflx'' \<or> kind = lit ''relay''"
  shows "pathOf (candidateOfPath index (address, port, kind)) = Some (address, port, kind)"
proof -
  from assms(1) obtain a b c d where address: "address = [a, b, c, d]"
    by (auto simp: length_Suc_conv eval_nat_numeral)
  let ?pre = "lit ''candidate:'' @ natText index @ lit '' 1 udp ''
     @ intText (2113937151 - int index * 100) @ lit '' ''"
  let ?ip = "natText a @ [46] @ natText b @ [46] @ natText c @ [46] @ natText d"
  let ?line = "?ip @ lit '' '' @ natText port @ lit '' typ '' @ kind"
  note dt = natText_props[THEN conjunct1] and dv = natText_props[THEN conjunct2]
  have kind: "kind \<noteq> []" "list_all isWordChar kind"
    using assms(2) by (auto simp: lit_def isWordChar_def isDigit_def)
  have pre: "46 \<notin> set ?pre" "?pre \<noteq> []" "\<not> isDigit (last ?pre)"
    using digitText_no_dot[OF dt, of index] intText_chars
    by (simp_all add: lit_def isDigit_def del: natText.simps)
  have cand: "candidate (candidateOfPath index (address, port, kind)) = ?pre @ ?line"
    by (simp add: candidateOfPath_def address del: natText.simps)
  have "matchCandidate (?pre @ ?line) = matchCandidate ?line"
    by (rule matchCandidate_skip[OF pre])
  also have "\<dots> = Some (?ip, natText port, kind)"
    using matchCandidate_here[OF matchCandidateHere_line[OF dt dt dt dt dt kind]]
    by (simp only: append_assoc)
  finally have m: "matchCandidate (candidate (candidateOfPath index (address, port, kind)))
      = Some (?ip, natText port, kind)"
    unfolding cand .
  have sp: "split 46 ?ip = [natText a, natText b, natText c, natText d]"
    by (rule split_address[OF dt dt dt dt])
  show ?thesis
    unfolding pathOf_def m option.case prod.case sp
    by (simp add: dv address del: natText.simps)
qed

lemma pathOf_restored:
  "list_all (\<lambda>p. length (fst p) = 4
       \<and> (snd (snd p) = lit ''host'' \<or> snd (snd p) = lit ''srflx'' \<or> snd (snd p) = lit ''relay'')) ps
     \<Longrightarrow> map pathOf (restored index ps) = map Some ps"
proof (induction ps arbitrary: index)
  case Nil
  show ?case by simp
next
  case (Cons p ps)
  obtain address port kind where p: "p = (address, port, kind)" by (cases p)
  with Cons.prems have "length address = 4"
    "kind = lit ''host'' \<or> kind = lit ''srflx'' \<or> kind = lit ''relay''" by simp_all
  from pathOf_candidateOfPath[OF this] Cons show ?case by (simp add: p)
qed

subsection \<open>Reading the fields of a restored document\<close>

text \<open>
  A field value that the codec carries unchanged: not empty, of code units up to 255,
  none of them white space or \<^verbatim>\<open>=\<close>.
\<close>

definition plainField :: "jsstring \<Rightarrow> bool" where
  "plainField s = (s \<noteq> [] \<and> list_all (\<lambda>c. c \<le> 255 \<and> \<not> isWhiteSpace c \<and> c \<noteq> 61) s)"

lemma plainField_D:
  assumes "plainField s"
  shows "s \<noteq> []" "latin1 s" "61 \<notin> set s" "\<forall>c \<in> set s. \<not> isLineTerminator c" "trim s = s"
proof -
  from assms show ne: "s \<noteq> []" and "latin1 s" and "61 \<notin> set s"
    by (auto simp: plainField_def latin1_def list_all_iff)
  from assms have ws: "\<forall>c \<in> set s. \<not> isWhiteSpace c"
    by (simp add: plainField_def list_all_iff)
  then show "\<forall>c \<in> set s. \<not> isLineTerminator c" by (auto simp: isWhiteSpace_def)
  from ws have "dropWhile isWhiteSpace s = s" "dropWhile isWhiteSpace (rev s) = rev s"
    by (simp_all add: dropWhile_eq_self_iff ne hd_rev last_in_set hd_in_set)
  then show "trim s = s" by (simp add: trim_def)
qed

lemma matchField_step:
  "take (length pre) (c # cs) \<noteq> pre \<Longrightarrow> matchField pre (c # cs) = matchField pre cs"
  by (simp add: Let_def)

lemma matchField_skip:
  assumes "61 \<notin> set xs" "rest \<noteq> []" "hd rest \<noteq> 61"
  shows "matchField (97 # 61 # pre) (xs @ rest) = matchField (97 # 61 # pre) rest"
  using assms(1)
proof (induction xs)
  case Nil
  show ?case by simp
next
  case (Cons x xs)
  have "hd (xs @ rest) \<noteq> 61" "xs @ rest \<noteq> []"
    using Cons.prems assms(2,3) by (cases xs; simp)+
  then have "take (length (97 # 61 # pre)) (x # xs @ rest) \<noteq> 97 # 61 # pre"
    by (cases "xs @ rest") auto
  then have "matchField (97 # 61 # pre) (x # xs @ rest) = matchField (97 # 61 # pre) (xs @ rest)"
    by (rule matchField_step)
  with Cons show ?case by simp
qed

lemma natText_no_eq: "61 \<notin> set (natText n)"
proof
  assume "61 \<in> set (natText n)"
  moreover have "\<forall>c \<in> set (natText n). isDigit c"
    using natText_props[of n] by (simp add: digitText_def list_all_iff del: natText.simps)
  ultimately have "isDigit 61" by blast
  then show False by (simp add: isDigit_def)
qed

lemma minimalSdp_fields:
  assumes "plainField u" "plainField p" "plainField f"
  shows "matchField (lit ''a=ice-ufrag:'') (minimalSdp t u p f ty) = Some u"
    and "matchField (lit ''a=ice-pwd:'') (minimalSdp t u p f ty) = Some p"
    and "matchField (lit ''a=fingerprint:sha-256 '') (minimalSdp t u p f ty) = Some f"
proof -
  note ps = plainField_D[OF assms(1)] plainField_D[OF assms(2)] plainField_D[OF assms(3)]
  have tw: "takeWhile (\<lambda>x. \<not> isLineTerminator x) (v @ 13 # r) = v"
    if "\<forall>c \<in> set v. \<not> isLineTerminator c" for v r
    using that by (induction v) (simp_all add: isLineTerminator_def)
  have lt: "isLineTerminator 13" by (simp add: isLineTerminator_def)
  show "matchField (lit ''a=ice-ufrag:'') (minimalSdp t u p f ty) = Some u"
    apply (simp add: minimalSdp_def lit_def matchField_step matchField_skip natText_no_eq ps
        del: matchField.simps natText.simps)
    apply (simp add: Let_def tw lt ps del: natText.simps)
    done
  show "matchField (lit ''a=ice-pwd:'') (minimalSdp t u p f ty) = Some p"
    apply (simp add: minimalSdp_def lit_def matchField_step matchField_skip natText_no_eq ps
        del: matchField.simps natText.simps)
    apply (simp add: Let_def tw lt ps del: natText.simps)
    done
  show "matchField (lit ''a=fingerprint:sha-256 '') (minimalSdp t u p f ty) = Some f"
    apply (simp add: minimalSdp_def lit_def matchField_step matchField_skip natText_no_eq ps
        del: matchField.simps natText.simps)
    apply (simp add: Let_def tw lt ps del: natText.simps)
    done
qed

lemma minimalSdp_read:
  assumes "plainField u" "plainField p" "plainField f"
  shows "hasRequiredFields \<lparr>type = ty, sdp = minimalSdp t u p f ty\<rparr>"
    and "iceUfragOf \<lparr>type = ty, sdp = minimalSdp t u p f ty\<rparr> = u"
    and "icePwdOf \<lparr>type = ty, sdp = minimalSdp t u p f ty\<rparr> = p"
    and "fingerprintOf \<lparr>type = ty, sdp = minimalSdp t u p f ty\<rparr> = f"
  using minimalSdp_fields[OF assms, of t ty] plainField_D(5)[OF assms(1)]
    plainField_D(5)[OF assms(2)] plainField_D(5)[OF assms(3)]
  by (simp_all add: hasRequiredFields_def hasField_iff iceUfragOf_def icePwdOf_def fingerprintOf_def)

lemma plainField_fingerprint:
  assumes "digest \<noteq> []" "list_all (\<lambda>b. b < 256) digest"
  shows "plainField (join [58] (map hexByte digest))"
proof -
  have hx: "hexDigitUpper d \<le> 255 \<and> \<not> isWhiteSpace (hexDigitUpper d) \<and> hexDigitUpper d \<noteq> 61"
    if "d < 16" for d
    using that by (auto simp: hexDigitUpper_def isWhiteSpace_def isLineTerminator_def)
  have byte: "list_all (\<lambda>c. c \<le> 255 \<and> \<not> isWhiteSpace c \<and> c \<noteq> 61) (hexByte b) \<and> hexByte b \<noteq> []"
    if "b < 256" for b
  proof -
    from that have "b div 16 < 16" "b mod 16 < 16" by simp_all
    then show ?thesis using hx by (simp add: hexByte_digits[OF that])
  qed
  have sep: "58 \<le> (255::nat) \<and> \<not> isWhiteSpace 58 \<and> (58::nat) \<noteq> 61"
    by (simp add: isWhiteSpace_def isLineTerminator_def)
  from assms show ?thesis
  proof (induction digest)
    case Nil
    then show ?case by simp
  next
    case (Cons x xs)
    then have x: "x < 256" by simp
    show ?case
    proof (cases xs)
      case Nil
      with byte[OF x] show ?thesis by (simp add: plainField_def)
    next
      case inner: (Cons y ys)
      with Cons have "plainField (join [58] (map hexByte xs))" by simp
      with byte[OF x] sep show ?thesis by (simp add: plainField_def inner)
    qed
  qed
qed

subsection \<open>Compressing and decompressing again\<close>

text \<open>
  A negotiation document as the engine writes it, with the digest its fingerprint
  stands for: the three fields are present, the role is \<^verbatim>\<open>offer\<close> or \<^verbatim>\<open>answer\<close>, the two
  credentials are plain, and the fingerprint is the digest's bytes as pairs of upper-case
  hexadecimal digits joined by colons.
\<close>

definition wellFormedDocument :: "description \<Rightarrow> nat list \<Rightarrow> bool" where
  "wellFormedDocument d digest =
     (hasRequiredFields d
      \<and> (type d = lit ''offer'' \<or> type d = lit ''answer'')
      \<and> plainField (iceUfragOf d) \<and> plainField (icePwdOf d)
      \<and> digest \<noteq> [] \<and> list_all (\<lambda>b. b < 256) digest
      \<and> fingerprintOf d = join [58] (map hexByte digest))"

lemma pathOf_restored_wellFormed:
  assumes "list_all wellFormedPath xs"
  shows "map pathOf (restored index (map (\<lambda>c. the (pathOf c)) xs)) = map pathOf xs"
proof -
  have each: "\<forall>c \<in> set xs. pathOf c = Some (the (pathOf c))
      \<and> length (fst (the (pathOf c))) = 4
      \<and> (snd (snd (the (pathOf c))) = lit ''host'' \<or> snd (snd (the (pathOf c))) = lit ''srflx''
         \<or> snd (snd (the (pathOf c))) = lit ''relay'')"
  proof
    fix c assume "c \<in> set xs"
    with assms have "wellFormedPath c" by (simp add: list_all_iff)
    then obtain address port kind where "pathOf c = Some (address, port, kind)"
      "kind = lit ''host'' \<or> kind = lit ''srflx'' \<or> kind = lit ''relay''" "length address = 4"
      by (rule wellFormedPath_D)
    then show "pathOf c = Some (the (pathOf c))
      \<and> length (fst (the (pathOf c))) = 4
      \<and> (snd (snd (the (pathOf c))) = lit ''host'' \<or> snd (snd (the (pathOf c))) = lit ''srflx''
         \<or> snd (snd (the (pathOf c))) = lit ''relay'')"
      by simp
  qed
  then have "list_all (\<lambda>p. length (fst p) = 4
       \<and> (snd (snd p) = lit ''host'' \<or> snd (snd p) = lit ''srflx'' \<or> snd (snd p) = lit ''relay''))
     (map (\<lambda>c. the (pathOf c)) xs)"
    by (simp add: list_all_iff)
  from pathOf_restored[OF this, of index] each show ?thesis by simp
qed

lemma length_restored: "length (restored index ps) = length ps"
  by (induction ps arbitrary: index) simp_all

text \<open>
  Compressing a well-formed document with well-formed candidates gives a token, and
  decompressing the token gives a document with the same role, in which the same
  credentials and the same fingerprint are read, and candidates with the paths of the
  first five.
\<close>

lemma codec_read:
  assumes doc: "wellFormedDocument d digest" and paths: "list_all wellFormedPath xs"
  shows "\<exists>token d' cs. compressSignaling pf d (map Some xs) = Inr token
       \<and> decompressSignaling pf token = Inr (d', cs)
       \<and> type d' = type d \<and> iceUfragOf d' = iceUfragOf d \<and> icePwdOf d' = icePwdOf d
       \<and> fingerprintOf d' = fingerprintOf d
       \<and> length cs = min 5 (length xs) \<and> map pathOf cs = map pathOf (take 5 xs)"
proof -
  from doc have fields: "hasRequiredFields d"
    and role: "type d = lit ''offer'' \<or> type d = lit ''answer''"
    and u: "plainField (iceUfragOf d)" and p: "plainField (icePwdOf d)"
    and fp: "fingerprintOf d = join [58] (map hexByte digest)" "digest \<noteq> []"
      "list_all (\<lambda>b. b < 256) digest"
    by (simp_all add: wellFormedDocument_def)
  have f: "plainField (fingerprintOf d)"
    unfolding fp(1) by (rule plainField_fingerprint[OF fp(2,3)])
  let ?d' = "\<lparr>type = type d,
      sdp = minimalSdp (now pf) (iceUfragOf d) (icePwdOf d) (fingerprintOf d) (type d)\<rparr>"
  let ?cs = "restored 0 (map (\<lambda>c. the (pathOf c)) (take 5 xs))"
  from codec_round_trip[OF fields role plainField_D(2)[OF u] plainField_D(2)[OF p] fp paths, of pf]
  obtain token where tok: "compressSignaling pf d (map Some xs) = Inr token"
    "decompressSignaling pf token = Inr (?d', ?cs)"
    by blast
  have five: "list_all wellFormedPath (take 5 xs)" by (rule list_all_take[OF paths])
  have "type ?d' = type d" by simp
  moreover note minimalSdp_read(2-4)[OF u p f, of "type d" "now pf"]
  moreover have "length ?cs = min 5 (length xs)" by (simp add: length_restored min.commute)
  moreover have "map pathOf ?cs = map pathOf (take 5 xs)"
    by (rule pathOf_restored_wellFormed[OF five])
  ultimately show ?thesis using tok by blast
qed

subsection \<open>Candidates that carry no path\<close>

text \<open>
  The candidates of a list that \<^verbatim>\<open>compressSignaling\<close> can read a path from: not
  \<^verbatim>\<open>null\<close>, with a candidate string that is not empty and that its regular expression
  matches.
\<close>

definition parseable :: "ice_candidate option list \<Rightarrow> ice_candidate list" where
  "parseable candidates =
     [c. Some c \<leftarrow> candidates, candidate c \<noteq> [], matchCandidate (candidate c) \<noteq> None]"

lemma parseable_filter:
  "filter (\<lambda>c. matchCandidate (candidate c) \<noteq> None) [c. Some c \<leftarrow> cs, candidate c \<noteq> []]
     = parseable cs"
  by (induction cs) (auto simp: parseable_def split: option.splits)

lemma parseable_kept: "[c. Some c \<leftarrow> map Some (parseable cs), candidate c \<noteq> []] = parseable cs"
  by (induction cs) (auto simp: parseable_def split: option.splits)

lemma compressCandidate_unmatched:
  "matchCandidate (candidate c) = None \<Longrightarrow> compressCandidate pf c = Inr None"
  by (simp add: compressCandidate_def)

lemma mapCandidates_unmatched:
  "(case mapCandidates pf ks of Inl e \<Rightarrow> Inl e | Inr m \<Rightarrow> Inr [x. Some x \<leftarrow> m, x \<noteq> []])
     = (case mapCandidates pf (filter (\<lambda>c. matchCandidate (candidate c) \<noteq> None) ks) of
          Inl e \<Rightarrow> Inl e
        | Inr m \<Rightarrow> Inr [x. Some x \<leftarrow> m, x \<noteq> []])"
proof (induction ks)
  case Nil
  show ?case by simp
next
  case (Cons c ks)
  show ?case
  proof (cases "matchCandidate (candidate c) = None")
    case True
    with Cons compressCandidate_unmatched[OF True, of pf] show ?thesis
      by (simp split: sum.splits)
  next
    case False
    with Cons show ?thesis by (auto split: sum.splits)
  qed
qed

lemma mapCandidates_parseable:
  "(case mapCandidates pf [c. Some c \<leftarrow> cs, candidate c \<noteq> []] of
      Inl e \<Rightarrow> Inl e
    | Inr m \<Rightarrow> g [x. Some x \<leftarrow> m, x \<noteq> []])
   = (case mapCandidates pf (parseable cs) of
        Inl e \<Rightarrow> Inl e
      | Inr m \<Rightarrow> g [x. Some x \<leftarrow> m, x \<noteq> []])"
  using mapCandidates_unmatched[of pf "[c. Some c \<leftarrow> cs, candidate c \<noteq> []]"]
  unfolding parseable_filter
  by (auto split: sum.splits)

lemma compressSignaling_parseable:
  "compressSignaling pf d cs = compressSignaling pf d (map Some (parseable cs))"
proof (cases "hasRequiredFields d")
  case True
  have eq: "(case mapCandidates pf [c. Some c \<leftarrow> cs, candidate c \<noteq> []] of
        Inl e \<Rightarrow> Inl e
      | Inr mapped \<Rightarrow>
          btoa (stringify (tokenData t u p f (take 5 [x. Some x \<leftarrow> mapped, x \<noteq> []]))))
     = (case mapCandidates pf (parseable cs) of
          Inl e \<Rightarrow> Inl e
        | Inr mapped \<Rightarrow>
            btoa (stringify (tokenData t u p f (take 5 [x. Some x \<leftarrow> mapped, x \<noteq> []]))))"
    for t u p f
    by (rule mapCandidates_parseable)
  show ?thesis
    unfolding compressSignaling_present[OF True] parseable_kept eq ..
next
  case False
  then have "matchField (lit ''a=ice-ufrag:'') (sdp d) = None
        \<or> matchField (lit ''a=ice-pwd:'') (sdp d) = None
        \<or> matchField (lit ''a=fingerprint:sha-256 '') (sdp d) = None"
    by (auto simp: hasRequiredFields_def hasField_iff)
  then show ?thesis
    unfolding compressSignaling_def Let_def by (simp only: if_True)
qed

subsection \<open>Examples\<close>

lemma exampleOffer_wellFormed: "wellFormedDocument exampleOffer [170, 11]"
proof -
  have "hexByte 170 = lit ''AA''" "hexByte 11 = lit ''0B''"
    by (simp_all add: hexByte_digits hexDigitUpper_def lit_def)
  then have "join [58] (map hexByte [170, 11]) = lit ''AA:0B''" by (simp add: lit_def)
  moreover have "plainField (lit ''abcd'')" "plainField (lit ''EFGH'')"
    by (simp_all add: plainField_def lit_def isWhiteSpace_def isLineTerminator_def)
  moreover have "type exampleOffer = lit ''offer''" by (simp add: exampleOffer_def)
  ultimately show ?thesis
    by (simp add: wellFormedDocument_def exampleOffer_values)
qed

lemma exampleCandidate_wellFormed: "wellFormedPath exampleCandidate"
  by (simp add: wellFormedPath_def exampleCandidate_path lit_def)

text \<open>Eight paths, and the candidates that carry them.\<close>

definition eightPaths :: "(nat list \<times> nat \<times> jsstring) list" where
  "eightPaths =
     [([192, 168, 1, 100], 54321, lit ''host''), ([203, 0, 113, 7], 61000, lit ''srflx''),
      ([198, 51, 100, 2], 3478, lit ''relay''), ([10, 0, 0, 1], 50001, lit ''host''),
      ([10, 0, 0, 2], 50002, lit ''host''), ([10, 0, 0, 3], 50003, lit ''host''),
      ([172, 16, 0, 4], 50004, lit ''srflx''), ([255, 255, 255, 255], 65535, lit ''relay'')]"

definition eightCandidates :: "ice_candidate list" where
  "eightCandidates = restored 0 eightPaths"

lemma wellFormed_restored:
  "list_all (\<lambda>p. length (fst p) = 4 \<and> list_all (\<lambda>n. n < 256) (fst p) \<and> fst (snd p) < 65536
       \<and> (snd (snd p) = lit ''host'' \<or> snd (snd p) = lit ''srflx'' \<or> snd (snd p) = lit ''relay'')) ps
     \<Longrightarrow> list_all wellFormedPath (restored index ps)"
proof (induction ps arbitrary: index)
  case Nil
  show ?case by simp
next
  case (Cons p ps)
  obtain address port kind where p: "p = (address, port, kind)" by (cases p)
  with Cons.prems have ok: "length address = 4" "list_all (\<lambda>n. n < 256) address" "port < 65536"
    "kind = lit ''host'' \<or> kind = lit ''srflx'' \<or> kind = lit ''relay''" by simp_all
  from pathOf_candidateOfPath[OF ok(1,4), of index port] ok(2-4)
  have "wellFormedPath (candidateOfPath index p)" by (simp add: wellFormedPath_def p)
  with Cons show ?case by simp
qed

lemma eightCandidates_props:
  "list_all wellFormedPath eightCandidates" "length eightCandidates = 8"
  "map pathOf eightCandidates = map Some eightPaths"
proof -
  have kinds: "lit ''host'' \<noteq> lit ''srflx''" "lit ''relay'' \<noteq> lit ''srflx''"
    "lit ''host'' \<noteq> lit ''relay''"
    by (simp_all add: lit_def)
  show "list_all wellFormedPath eightCandidates"
    unfolding eightCandidates_def by (rule wellFormed_restored) (simp add: eightPaths_def)
  show "length eightCandidates = 8"
    by (simp add: eightCandidates_def length_restored eightPaths_def)
  show "map pathOf eightCandidates = map Some eightPaths"
    unfolding eightCandidates_def by (rule pathOf_restored) (simp add: eightPaths_def)
qed

text \<open>
  A list as the engine and a caller may give it: \<^verbatim>\<open>null\<close>, a candidate with an empty
  string (the end of gathering), an IPv6 candidate, and only then an IPv4 candidate.
\<close>

definition mixedCandidates :: "ice_candidate option list" where
  "mixedCandidates =
     [None,
      Some \<lparr>candidate = [], sdpMid = lit ''0'', sdpMLineIndex = 0\<rparr>,
      Some \<lparr>candidate = lit ''candidate:1 1 udp 2122262783 fe80::1 9 typ host'',
            sdpMid = lit ''0'', sdpMLineIndex = 0\<rparr>,
      None,
      Some \<lparr>candidate = lit ''candidate:2 1 tcp 1518280447 host.local 9 typ host'',
            sdpMid = lit ''0'', sdpMLineIndex = 0\<rparr>,
      Some exampleCandidate]"

lemma parseable_mixedCandidates: "parseable mixedCandidates = [exampleCandidate]"
proof -
  have "matchCandidate (lit ''candidate:1 1 udp 2122262783 fe80::1 9 typ host'') = None"
    "matchCandidate (lit ''candidate:2 1 tcp 1518280447 host.local 9 typ host'') = None"
    by (simp_all add: lit_def matchCandidateHere_def digitsThen_def isDigit_def)
  moreover have "candidate exampleCandidate \<noteq> []" by (simp add: exampleCandidate_def lit_def)
  ultimately show ?thesis
    by (simp add: parseable_def mixedCandidates_def exampleCandidate_match)
qed

section \<open>The codec's round trip\<close>

text \<open>
  Claim C1. For every negotiation document in which the role, the credential username
  (\<^verbatim>\<open>ice-ufrag\<close>), the credential secret (\<^verbatim>\<open>ice-pwd\<close>) and the fingerprint are present, and
  every list of at most five well-formed network paths, \<^verbatim>\<open>compressSignaling\<close> returns a token
  and \<^verbatim>\<open>decompressSignaling\<close> of that token returns a document with the same role, the same
  credentials and the same fingerprint, and candidates that carry exactly the input paths
  (address, port, kind) in the original order. The document is one the engine writes: its
  role is \<^verbatim>\<open>offer\<close> or \<^verbatim>\<open>answer\<close>, its credentials are plain text and its fingerprint is the
  hexadecimal text of a digest; a path is well formed when its address is four numbers
  below 256, its port is below 65536 and its kind is \<^verbatim>\<open>host\<close>, \<^verbatim>\<open>srflx\<close> or \<^verbatim>\<open>relay\<close>.
\<close>

theorem round_trip_at_most_five:
  assumes "wellFormedDocument d digest" and "list_all wellFormedPath xs" and "length xs \<le> 5"
  shows "\<exists>token d' cs. compressSignaling pf d (map Some xs) = Inr token
       \<and> decompressSignaling pf token = Inr (d', cs)
       \<and> type d' = type d \<and> iceUfragOf d' = iceUfragOf d \<and> icePwdOf d' = icePwdOf d
       \<and> fingerprintOf d' = fingerprintOf d
       \<and> map pathOf cs = map pathOf xs"
  using codec_read[OF assms(1,2), of pf] assms(3) by auto

theorem round_trip_at_most_five_witness:
  "\<exists>token d' cs. compressSignaling examplePlatform exampleOffer [Some exampleCandidate] = Inr token
     \<and> decompressSignaling examplePlatform token = Inr (d', cs)
     \<and> type d' = lit ''offer'' \<and> iceUfragOf d' = lit ''abcd'' \<and> icePwdOf d' = lit ''EFGH''
     \<and> fingerprintOf d' = lit ''AA:0B''
     \<and> map pathOf cs = [Some ([192, 168, 1, 100], 54321, lit ''host'')]"
proof -
  have role: "type exampleOffer = lit ''offer''" by (simp add: exampleOffer_def)
  have paths: "list_all wellFormedPath [exampleCandidate]" "length [exampleCandidate] \<le> 5"
    by (simp_all add: exampleCandidate_wellFormed)
  from round_trip_at_most_five[OF exampleOffer_wellFormed paths, of examplePlatform]
  show ?thesis
    by (simp add: exampleOffer_values exampleCandidate_path role)
qed

section \<open>The cap at five paths\<close>

text \<open>
  Claim C3. For every negotiation document with the required fields present and every list
  of eight well-formed network paths, \<^verbatim>\<open>compressSignaling\<close> returns a token that
  \<^verbatim>\<open>decompressSignaling\<close> turns into exactly five candidates, which carry the paths of the
  first five of the input list.
\<close>

theorem truncation_to_five:
  assumes "wellFormedDocument d digest" and "list_all wellFormedPath xs" and "length xs = 8"
  shows "\<exists>token d' cs. compressSignaling pf d (map Some xs) = Inr token
       \<and> decompressSignaling pf token = Inr (d', cs)
       \<and> length cs = 5 \<and> map pathOf cs = map pathOf (take 5 xs)"
  using codec_read[OF assms(1,2), of pf] assms(3) by auto

theorem truncation_to_five_witness:
  "\<exists>token d' cs. compressSignaling examplePlatform exampleOffer (map Some eightCandidates) = Inr token
     \<and> decompressSignaling examplePlatform token = Inr (d', cs)
     \<and> length cs = 5 \<and> map pathOf cs = map Some (take 5 eightPaths)"
  using truncation_to_five[of exampleOffer "[170, 11]" eightCandidates examplePlatform]
    exampleOffer_wellFormed eightCandidates_props
  by (simp add: take_map[symmetric])

section \<open>Candidates left out before the cap\<close>

text \<open>
  Claim C10. For every candidate list given to \<^verbatim>\<open>compressSignaling\<close>, the entries that are
  \<^verbatim>\<open>null\<close>, that have an empty candidate string, or whose candidate string does not contain
  an IPv4 address, a port and a kind in the expected pattern are left out before the cap of
  five is applied: the result is that of compressing the parseable candidates alone, and
  the token carries the paths of the first five parseable candidates, not of the first
  five entries of the list.
\<close>

theorem excluded_before_cap:
  assumes "wellFormedDocument d digest" and "list_all wellFormedPath (parseable candidates)"
  shows "compressSignaling pf d candidates = compressSignaling pf d (map Some (parseable candidates))
       \<and> (\<exists>token d' cs. compressSignaling pf d candidates = Inr token
            \<and> decompressSignaling pf token = Inr (d', cs)
            \<and> map pathOf cs = map pathOf (take 5 (parseable candidates)))"
  using codec_read[OF assms, of pf] compressSignaling_parseable[of pf d candidates] by auto

theorem excluded_before_cap_witness:
  "compressSignaling examplePlatform exampleOffer mixedCandidates
     = compressSignaling examplePlatform exampleOffer [Some exampleCandidate]
   \<and> (\<exists>token d' cs. compressSignaling examplePlatform exampleOffer mixedCandidates = Inr token
        \<and> decompressSignaling examplePlatform token = Inr (d', cs)
        \<and> map pathOf cs = [Some ([192, 168, 1, 100], 54321, lit ''host'')])"
proof -
  have paths: "list_all wellFormedPath (parseable mixedCandidates)"
    by (simp add: parseable_mixedCandidates exampleCandidate_wellFormed)
  note carried = excluded_before_cap[OF exampleOffer_wellFormed paths, of examplePlatform,
      unfolded parseable_mixedCandidates]
  from carried[THEN conjunct1]
  have same: "compressSignaling examplePlatform exampleOffer mixedCandidates
     = compressSignaling examplePlatform exampleOffer [Some exampleCandidate]"
    by simp
  from carried[THEN conjunct2]
  have "\<exists>token d' cs. compressSignaling examplePlatform exampleOffer mixedCandidates = Inr token
        \<and> decompressSignaling examplePlatform token = Inr (d', cs)
        \<and> map pathOf cs = [Some ([192, 168, 1, 100], 54321, lit ''host'')]"
    by (simp add: exampleCandidate_path)
  with same show ?thesis by (rule conjI)
qed

end
